theory Spec2Isabelle
  imports Main "HOL-Library.Word" "HOL-Library.Stream" "HOL-Library.Sublist"
begin

unbundle bit_operations_syntax

section \<open>Library layer: SHA-256 and HMAC (Python's hashlib and hmac)\<close>

text \<open>
  The repository calls \<^verbatim>\<open>hmac.new(key, msg, hashlib.sha256).digest()\<close>. The two library
  functions are modelled after FIPS 180-4 (SHA-256) and RFC 2104 (HMAC) on 32-bit words
  and bytes.
\<close>

type_synonym byte = "8 word"
type_synonym u32 = "32 word"

definition rotr :: "nat \<Rightarrow> u32 \<Rightarrow> u32" where
  "rotr n x = drop_bit n x OR push_bit (32 - n) x"

definition Ch :: "u32 \<Rightarrow> u32 \<Rightarrow> u32 \<Rightarrow> u32" where
  "Ch x y z = (x AND y) XOR (NOT x AND z)"

definition Maj :: "u32 \<Rightarrow> u32 \<Rightarrow> u32 \<Rightarrow> u32" where
  "Maj x y z = (x AND y) XOR (x AND z) XOR (y AND z)"

definition bsig0 :: "u32 \<Rightarrow> u32" where
  "bsig0 x = rotr 2 x XOR rotr 13 x XOR rotr 22 x"

definition bsig1 :: "u32 \<Rightarrow> u32" where
  "bsig1 x = rotr 6 x XOR rotr 11 x XOR rotr 25 x"

definition ssig0 :: "u32 \<Rightarrow> u32" where
  "ssig0 x = rotr 7 x XOR rotr 18 x XOR drop_bit 3 x"

definition ssig1 :: "u32 \<Rightarrow> u32" where
  "ssig1 x = rotr 17 x XOR rotr 19 x XOR drop_bit 10 x"

definition K256 :: "u32 list" where
  "K256 =
   [1116352408, 1899447441, 3049323471, 3921009573, 961987163, 1508970993,
    2453635748, 2870763221, 3624381080, 310598401, 607225278, 1426881987,
    1925078388, 2162078206, 2614888103, 3248222580, 3835390401, 4022224774,
    264347078, 604807628, 770255983, 1249150122, 1555081692, 1996064986,
    2554220882, 2821834349, 2952996808, 3210313671, 3336571891, 3584528711,
    113926993, 338241895, 666307205, 773529912, 1294757372, 1396182291,
    1695183700, 1986661051, 2177026350, 2456956037, 2730485921, 2820302411,
    3259730800, 3345764771, 3516065817, 3600352804, 4094571909, 275423344,
    430227734, 506948616, 659060556, 883997877, 958139571, 1322822218,
    1537002063, 1747873779, 1955562222, 2024104815, 2227730452, 2361852424,
    2428436474, 2756734187, 3204031479, 3329325298]"

definition H0 :: "u32 list" where
  "H0 = [1779033703, 3144134277, 1013904242, 2773480762,
         1359893119, 2600822924, 528734635, 1541459225]"

definition be32 :: "byte \<Rightarrow> byte \<Rightarrow> byte \<Rightarrow> byte \<Rightarrow> u32" where
  "be32 a b c d =
     push_bit 24 (ucast a) OR push_bit 16 (ucast b) OR push_bit 8 (ucast c) OR ucast d"

definition u32_bytes :: "u32 \<Rightarrow> byte list" where
  "u32_bytes w = [ucast (drop_bit 24 w), ucast (drop_bit 16 w), ucast (drop_bit 8 w), ucast w]"

definition u64_bytes :: "nat \<Rightarrow> byte list" where
  "u64_bytes n = map (\<lambda>k. ucast (drop_bit (8 * (7 - k)) (word_of_nat n :: 64 word))) [0..<8]"

text \<open>Padding: a 1 bit, zeros up to 56 modulo 64 bytes, then the bit length on 8 bytes.\<close>

definition pad :: "byte list \<Rightarrow> byte list" where
  "pad m = m @ [0x80] @ replicate ((119 - length m mod 64) mod 64) 0 @ u64_bytes (8 * length m)"

fun words_of :: "byte list \<Rightarrow> u32 list" where
  "words_of (a # b # c # d # r) = be32 a b c d # words_of r"
| "words_of _ = []"

text \<open>The message schedule: 16 words of the block, extended by \<open>n\<close> further words.\<close>

fun schedule :: "nat \<Rightarrow> u32 list \<Rightarrow> u32 list" where
  "schedule 0 w = w"
| "schedule (Suc n) w =
     schedule n (w @ [ssig1 (w ! (length w - 2)) + w ! (length w - 7)
                      + ssig0 (w ! (length w - 15)) + w ! (length w - 16)])"

fun sha_round :: "u32 list \<Rightarrow> u32 \<times> u32 \<Rightarrow> u32 list" where
  "sha_round [a, b, c, d, e, f, g, h] (k, w) =
     (let t1 = h + bsig1 e + Ch e f g + k + w;
          t2 = bsig0 a + Maj a b c
      in [t1 + t2, a, b, c, d + t1, e, f, g])"
| "sha_round s _ = s"

definition compress :: "u32 list \<Rightarrow> byte list \<Rightarrow> u32 list" where
  "compress h blk = map2 (+) h (foldl sha_round h (zip K256 (schedule 48 (words_of blk))))"

function blocks :: "byte list \<Rightarrow> byte list list" where
  "blocks bs = (if length bs < 64 then [] else take 64 bs # blocks (drop 64 bs))"
  by pat_completeness auto
termination
  by (relation "measure length") auto

definition sha256 :: "byte list \<Rightarrow> byte list" where
  "sha256 m = concat (map u32_bytes (foldl compress H0 (blocks (pad m))))"

text \<open>HMAC with block size 64: a key longer than a block is hashed first.\<close>

definition hmac_sha256 :: "byte list \<Rightarrow> byte list \<Rightarrow> byte list" where
  "hmac_sha256 key msg =
     (let k0 = (if 64 < length key then sha256 key else key);
          k = k0 @ replicate (64 - length k0) 0
      in sha256 (map (\<lambda>b. b XOR 0x5c) k @ sha256 (map (\<lambda>b. b XOR 0x36) k @ msg)))"

section \<open>Python values: exceptions, strings, the environment\<close>

datatype error =
    ValueError | OverflowError | IndexError | ZeroDivisionError | EOFError | KeyboardInterruptError

text \<open>
  A \<open>string\<close> is a sequence of characters with code points below 256;
  \<^verbatim>\<open>str.encode('utf-8')\<close> gives one byte below 128 and two bytes from 128 on.
\<close>

definition encode_utf8 :: "string \<Rightarrow> byte list" where
  "encode_utf8 s =
     concat (map (\<lambda>c. let n = (of_char c :: nat)
                        in if n < 128 then [of_nat n]
                           else [of_nat (192 + n div 64), of_nat (128 + n mod 64)]) s)"

text \<open>Indexing a sequence with a non-negative index; out of range raises IndexError.\<close>

definition index :: "'a list \<Rightarrow> nat \<Rightarrow> error + 'a" where
  "index xs i = (if i < length xs then Inr (xs ! i) else Inl IndexError)"

text \<open>The remainder \<^verbatim>\<open>a % b\<close> on non-negative integers; a zero divisor raises.\<close>

definition py_mod :: "nat \<Rightarrow> nat \<Rightarrow> error + nat" where
  "py_mod a b = (if b = 0 then Inl ZeroDivisionError else Inr (a mod b))"

section \<open>Library layer: datetime\<close>

text \<open>
  A naive \<^verbatim>\<open>datetime\<close>: the seven fields of the Python object. Years run from 1 to
  9999 (MINYEAR, MAXYEAR); the constructor raises ValueError outside the calendar.
\<close>

record datetime =
  year :: nat
  month :: nat
  day :: nat
  hour :: nat
  minute :: nat
  second :: nat
  microsecond :: nat

definition is_leap :: "nat \<Rightarrow> bool" where
  "is_leap y = (y mod 4 = 0 \<and> (y mod 100 \<noteq> 0 \<or> y mod 400 = 0))"

definition days_in_month :: "nat \<Rightarrow> nat \<Rightarrow> nat" where
  "days_in_month y m =
     (if m = 2 then (if is_leap y then 29 else 28)
      else if m = 4 \<or> m = 6 \<or> m = 9 \<or> m = 11 then 30 else 31)"

definition valid_datetime :: "datetime \<Rightarrow> bool" where
  "valid_datetime d =
     (1 \<le> year d \<and> year d \<le> 9999 \<and> 1 \<le> month d \<and> month d \<le> 12 \<and>
      1 \<le> day d \<and> day d \<le> days_in_month (year d) (month d) \<and>
      hour d < 24 \<and> minute d < 60 \<and> second d < 60 \<and> microsecond d < 1000000)"

text \<open>\<^verbatim>\<open>datetime(y, m, d)\<close>: midnight of the given day, all smaller fields zero.\<close>

definition mk_datetime :: "nat \<Rightarrow> nat \<Rightarrow> nat \<Rightarrow> error + datetime" where
  "mk_datetime y m d =
     (if 1 \<le> y \<and> y \<le> 9999 \<and> 1 \<le> m \<and> m \<le> 12 \<and> 1 \<le> d \<and> d \<le> days_in_month y m
      then Inr \<lparr>year = y, month = m, day = d, hour = 0, minute = 0, second = 0, microsecond = 0\<rparr>
      else Inl ValueError)"

text \<open>\<^verbatim>\<open>d - timedelta(days=1)\<close>: the same time of day on the previous calendar day.\<close>

definition minus_one_day :: "datetime \<Rightarrow> error + datetime" where
  "minus_one_day d =
     (if 1 < day d then Inr (d\<lparr>day := day d - 1\<rparr>)
      else if 1 < month d
        then Inr (d\<lparr>month := month d - 1, day := days_in_month (year d) (month d - 1)\<rparr>)
      else if 1 < year d then Inr (d\<lparr>year := year d - 1, month := 12, day := 31\<rparr>)
      else Inl OverflowError)"

text \<open>\<^verbatim>\<open>d.replace(hour=h, minute=m, second=s)\<close>: the other fields are kept.\<close>

definition replace_hms :: "datetime \<Rightarrow> nat \<Rightarrow> nat \<Rightarrow> nat \<Rightarrow> datetime" where
  "replace_hms d h m s = d\<lparr>hour := h, minute := m, second := s\<rparr>"

text \<open>\<^verbatim>\<open>a > b\<close> on naive datetimes: lexicographic on the seven fields.\<close>

definition dt_key :: "datetime \<Rightarrow> nat list" where
  "dt_key d = [year d, month d, day d, hour d, minute d, second d, microsecond d]"

fun lex_gt :: "nat list \<Rightarrow> nat list \<Rightarrow> bool" where
  "lex_gt (a # as) (b # bs) = (b < a \<or> (a = b \<and> lex_gt as bs))"
| "lex_gt _ _ = False"

definition dt_gt :: "datetime \<Rightarrow> datetime \<Rightarrow> bool" where
  "dt_gt a b = lex_gt (dt_key a) (dt_key b)"

text \<open>Decimal formatting of a non-negative integer, and the format \<^verbatim>\<open>:02d\<close>.\<close>

function str_nat :: "nat \<Rightarrow> string" where
  "str_nat n = (if n < 10 then [char_of (48 + n)]
                else str_nat (n div 10) @ [char_of (48 + n mod 10)])"
  by pat_completeness auto
termination
  by (relation "measure id") auto

definition fmt_02d :: "nat \<Rightarrow> string" where
  "fmt_02d n = (if n < 10 then CHR ''0'' # str_nat n else str_nat n)"

section \<open>The environment\<close>

text \<open>
  What the program reads from outside is explicit state: the successive results of
  \<^verbatim>\<open>datetime.now()\<close>, the pending results of \<^verbatim>\<open>input()\<close> (a line typed by the
  operator or an interrupt; when nothing is left the call raises EOFError), the successive
  results of \<^verbatim>\<open>AsteriskManager.start()\<close>, and the messages printed by the unlock
  dialogue and by the validation menus.
\<close>

datatype input_event = Line string | KeyboardInterrupt

datatype message =
    MsgCodeCorrect
  | MsgUnlocked
  | MsgRestartError
  | MsgIncorrect int
  | MsgTooManyAttempts
  | MsgCancelled
  | MsgCodeValid
  | MsgCodeInvalid

record world =
  clock :: "datetime stream"
  stdin :: "input_event list"
  start_results :: "bool stream"
  stdout :: "message list"

definition now :: "world \<Rightarrow> datetime \<times> world" where
  "now w = (shd (clock w), w\<lparr>clock := stl (clock w)\<rparr>)"

definition asterisk_start :: "world \<Rightarrow> bool \<times> world" where
  "asterisk_start w = (shd (start_results w), w\<lparr>start_results := stl (start_results w)\<rparr>)"

definition print :: "message \<Rightarrow> world \<Rightarrow> world" where
  "print m w = w\<lparr>stdout := stdout w @ [m]\<rparr>"


text \<open>
  A string that has gone through \<^verbatim>\<open>str.upper()\<close> is kept as the list of its code points
  (\<open>pystr\<close>), since two characters below 256 have their capital above 255; \<open>code_points\<close>
  gives the code points of a string the program built.
\<close>

type_synonym pystr = "nat list"

definition code_points :: "string \<Rightarrow> pystr" where
  "code_points s = map of_char s"

text \<open>
  \<^verbatim>\<open>str.strip()\<close> removes the characters for which \<^verbatim>\<open>str.isspace\<close> holds at both ends.
  \<^verbatim>\<open>str.upper()\<close> on the characters below 256: a to z and the letters 224 to 254 (without
  the division sign 247) move down by 32, the sharp s (223) becomes SS, the micro sign (181)
  becomes U+039C and y with diaeresis (255) becomes U+0178; every other character is kept.
\<close>

definition is_space :: "char \<Rightarrow> bool" where
  "is_space c = ((of_char c :: nat) \<in> {9, 10, 11, 12, 13, 28, 29, 30, 31, 32, 133, 160})"

definition strip :: "string \<Rightarrow> string" where
  "strip s = rev (dropWhile is_space (rev (dropWhile is_space s)))"

definition upper_char :: "char \<Rightarrow> pystr" where
  "upper_char c =
     (let n = (of_char c :: nat)
      in if 97 \<le> n \<and> n \<le> 122 then [n - 32]
         else if n = 181 then [924]
         else if n = 223 then [83, 83]
         else if 224 \<le> n \<and> n \<le> 254 \<and> n \<noteq> 247 then [n - 32]
         else if n = 255 then [376]
         else [n])"

definition upper :: "string \<Rightarrow> pystr" where
  "upper s = concat (map upper_char s)"

section \<open>serziam.py: DeterministicCodeGenerator\<close>

definition SECRET_SEED :: string where
  "SECRET_SEED = ''asterisk_secure_deterministic_v1''"

record generator =
  secret_seed :: string

definition get_current_period :: "world \<Rightarrow> string \<times> world" where
  "get_current_period w =
     (let (current_date, w1) = now w
      in (fmt_02d (month current_date) @ ''-'' @ str_nat (year current_date), w1))"

text \<open>
  The loop \<^verbatim>\<open>for i in range(length)\<close> of \<open>generate_deterministic_code\<close>, over the
  indices still to visit; \<open>byte_val\<close> is a Python integer, so the sum is exact.
\<close>

fun code_loop :: "byte list \<Rightarrow> string \<Rightarrow> nat list \<Rightarrow> string \<Rightarrow> error + string" where
  "code_loop hash_bytes chars [] code_chars = Inr code_chars"
| "code_loop hash_bytes chars (i # rest) code_chars =
     (case py_mod i (length hash_bytes) of Inl e \<Rightarrow> Inl e | Inr j \<Rightarrow>
      (case index hash_bytes j of Inl e \<Rightarrow> Inl e | Inr b \<Rightarrow>
       (let byte_val = unat b + i in
        (case py_mod byte_val (length chars) of Inl e \<Rightarrow> Inl e | Inr k \<Rightarrow>
         (case index chars k of Inl e \<Rightarrow> Inl e | Inr c \<Rightarrow>
            code_loop hash_bytes chars rest (code_chars @ [c]))))))"

definition generate_deterministic_code ::
    "generator \<Rightarrow> string option \<Rightarrow> int \<Rightarrow> world \<Rightarrow> (error + string) \<times> world" where
  "generate_deterministic_code self month_year len w =
     (let (period, w1) = (case month_year of None \<Rightarrow> get_current_period w | Some p \<Rightarrow> (p, w));
          hash_bytes = hmac_sha256 (encode_utf8 (secret_seed self)) (encode_utf8 period);
          chars = ''ABCDEFGHIJKLMNOPQRSTUVWXYZ0123456789''
      in (code_loop hash_bytes chars [0..<nat len] [], w1))"

definition get_current_code :: "generator \<Rightarrow> world \<Rightarrow> (error + string) \<times> world" where
  "get_current_code self w =
     (let (month_year, w1) = get_current_period w
      in generate_deterministic_code self (Some month_year) 8 w1)"

section \<open>serziamvalidator.py: the second copy of the generator\<close>

definition get_current_period_validator :: "world \<Rightarrow> string \<times> world" where
  "get_current_period_validator w =
     (let (current_date, w1) = now w
      in (fmt_02d (month current_date) @ ''-'' @ str_nat (year current_date), w1))"

fun code_loop_validator ::
    "byte list \<Rightarrow> string \<Rightarrow> nat list \<Rightarrow> string \<Rightarrow> error + string" where
  "code_loop_validator hash_bytes chars [] code_chars = Inr code_chars"
| "code_loop_validator hash_bytes chars (i # rest) code_chars =
     (case py_mod i (length hash_bytes) of Inl e \<Rightarrow> Inl e | Inr j \<Rightarrow>
      (case index hash_bytes j of Inl e \<Rightarrow> Inl e | Inr b \<Rightarrow>
       (let byte_val = unat b + i in
        (case py_mod byte_val (length chars) of Inl e \<Rightarrow> Inl e | Inr k \<Rightarrow>
         (case index chars k of Inl e \<Rightarrow> Inl e | Inr c \<Rightarrow>
            code_loop_validator hash_bytes chars rest (code_chars @ [c]))))))"

definition generate_deterministic_code_validator ::
    "generator \<Rightarrow> string option \<Rightarrow> int \<Rightarrow> world \<Rightarrow> (error + string) \<times> world" where
  "generate_deterministic_code_validator self month_year len w =
     (let (period, w1) =
            (case month_year of None \<Rightarrow> get_current_period_validator w | Some p \<Rightarrow> (p, w));
          hash_bytes = hmac_sha256 (encode_utf8 (secret_seed self)) (encode_utf8 period);
          chars = ''ABCDEFGHIJKLMNOPQRSTUVWXYZ0123456789''
      in (code_loop_validator hash_bytes chars [0..<nat len] [], w1))"

section \<open>serziamtest.py: the third copy, a module-level function\<close>

fun code_loop_test :: "byte list \<Rightarrow> string \<Rightarrow> nat list \<Rightarrow> string \<Rightarrow> error + string" where
  "code_loop_test hash_bytes chars [] code_chars = Inr code_chars"
| "code_loop_test hash_bytes chars (i # rest) code_chars =
     (case py_mod i (length hash_bytes) of Inl e \<Rightarrow> Inl e | Inr j \<Rightarrow>
      (case index hash_bytes j of Inl e \<Rightarrow> Inl e | Inr b \<Rightarrow>
       (let byte_val = unat b + i in
        (case py_mod byte_val (length chars) of Inl e \<Rightarrow> Inl e | Inr k \<Rightarrow>
         (case index chars k of Inl e \<Rightarrow> Inl e | Inr c \<Rightarrow>
            code_loop_test hash_bytes chars rest (code_chars @ [c]))))))"

definition generate_deterministic_code_test :: "string \<Rightarrow> int \<Rightarrow> error + string" where
  "generate_deterministic_code_test month_year len =
     (let hash_bytes = hmac_sha256 (encode_utf8 SECRET_SEED) (encode_utf8 month_year);
          chars = ''ABCDEFGHIJKLMNOPQRSTUVWXYZ0123456789''
      in code_loop_test hash_bytes chars [0..<nat len] [])"

section \<open>serziam.py: HiddenAccessCodeManager\<close>

text \<open>The manager is a generator constructed with the configured seed.\<close>

definition HiddenAccessCodeManager :: generator where
  "HiddenAccessCodeManager = \<lparr>secret_seed = SECRET_SEED\<rparr>"

definition get_current_code_with_expiry ::
    "generator \<Rightarrow> world \<Rightarrow> (error + string \<times> datetime) \<times> world" where
  "get_current_code_with_expiry self w =
     (let (current_date, w1) = now w;
          (month_year, w2) = get_current_period w1;
          (r, w3) = get_current_code self w2
      in case r of Inl e \<Rightarrow> (Inl e, w3) | Inr code \<Rightarrow>
         (case (if month current_date = 12 then mk_datetime (year current_date + 1) 1 1
                else mk_datetime (year current_date) (month current_date + 1) 1)
          of Inl e \<Rightarrow> (Inl e, w3) | Inr next_month \<Rightarrow>
            (case minus_one_day next_month of Inl e \<Rightarrow> (Inl e, w3) | Inr expires_at \<Rightarrow>
               (Inr (code, replace_hms expires_at 23 59 59), w3))))"

text \<open>The argument of \<open>validate_code\<close> is what a caller read and normalised.\<close>

definition validate_code :: "generator \<Rightarrow> pystr \<Rightarrow> world \<Rightarrow> (error + bool) \<times> world" where
  "validate_code self input_code w =
     (let (r, w1) = get_current_code self w
      in case r of Inl e \<Rightarrow> (Inl e, w1)
         | Inr expected_code \<Rightarrow> (Inr (input_code = code_points expected_code), w1))"

definition is_code_expired :: "generator \<Rightarrow> world \<Rightarrow> (error + bool) \<times> world" where
  "is_code_expired self w =
     (let (r, w1) = get_current_code_with_expiry self w
      in case r of Inl e \<Rightarrow> (Inl e, w1)
         | Inr (code, expires_at) \<Rightarrow>
             (let (t, w2) = now w1 in (Inr (dt_gt t expires_at), w2)))"

section \<open>serziamvalidator.py: VisibleAccessCodeManager\<close>

definition get_current_code_validator :: "generator \<Rightarrow> world \<Rightarrow> (error + string) \<times> world" where
  "get_current_code_validator self w =
     (let (month_year, w1) = get_current_period_validator w
      in generate_deterministic_code_validator self (Some month_year) 8 w1)"

text \<open>\<open>display_code_status\<close> returns the pair \<open>(code, expires_at)\<close>; its printing is left out.\<close>

definition display_code_status_validator ::
    "generator \<Rightarrow> world \<Rightarrow> (error + string \<times> datetime) \<times> world" where
  "display_code_status_validator self w =
     (let (current_date, w1) = now w;
          (month_year, w2) = get_current_period_validator w1;
          (r, w3) = get_current_code_validator self w2
      in case r of Inl e \<Rightarrow> (Inl e, w3) | Inr code \<Rightarrow>
         (case (if month current_date = 12 then mk_datetime (year current_date + 1) 1 1
                else mk_datetime (year current_date) (month current_date + 1) 1)
          of Inl e \<Rightarrow> (Inl e, w3) | Inr next_month \<Rightarrow>
            (case minus_one_day next_month of Inl e \<Rightarrow> (Inl e, w3) | Inr expires_at \<Rightarrow>
               (Inr (code, replace_hms expires_at 23 59 59), w3))))"



section \<open>serziam.py: AccessControlSystem, the unlock dialogue\<close>

text \<open>
  The loop \<^verbatim>\<open>while attempts > 0\<close> of \<open>_prompt_for_new_code\<close>. An interrupt at the prompt
  is caught and ends the dialogue; EOFError is not caught and leaves the function.
\<close>

function prompt_loop :: "generator \<Rightarrow> int \<Rightarrow> world \<Rightarrow> (error + bool) \<times> world" where
  "prompt_loop self attempts w =
     (if 0 < attempts then
        (case stdin w of
           [] \<Rightarrow> (Inl EOFError, w)
         | KeyboardInterrupt # rest \<Rightarrow> (Inr False, print MsgCancelled (w\<lparr>stdin := rest\<rparr>))
         | Line s # rest \<Rightarrow>
             (case validate_code self (upper (strip s)) (w\<lparr>stdin := rest\<rparr>) of
                (Inl e, w1) \<Rightarrow> (Inl e, w1)
              | (Inr True, w1) \<Rightarrow>
                  (case asterisk_start (print MsgCodeCorrect w1) of
                     (True, w2) \<Rightarrow> (Inr True, print MsgUnlocked w2)
                   | (False, w2) \<Rightarrow> (Inr False, print MsgRestartError w2))
              | (Inr False, w1) \<Rightarrow>
                  (if 0 < attempts - 1
                   then prompt_loop self (attempts - 1) (print (MsgIncorrect (attempts - 1)) w1)
                   else (Inr False, print MsgTooManyAttempts w1))))
      else (Inr False, w))"
  by pat_completeness auto
termination
  by (relation "measure (\<lambda>(self, attempts, w). nat attempts)") auto

section \<open>serziam.py: CompleteMenuManager, the validation menu\<close>


definition prompt_for_new_code :: "generator \<Rightarrow> world \<Rightarrow> (error + bool) \<times> world" where
  "prompt_for_new_code self w =
     (let (current_date, w1) = now w;
          (month_year, w2) = get_current_period w1;
          (r, w3) = get_current_code self w2
      in case r of Inl e \<Rightarrow> (Inl e, w3) | Inr expected_code \<Rightarrow> prompt_loop self 3 w3)"

section \<open>The specification's words, for comparison with the code\<close>

text \<open>
  The derivation as the specification writes it: position \<open>i\<close> of the code is the character
  at index \<open>(digest[i mod 32] + i) mod 36\<close> of the alphabet, where the digest is the
  HMAC-SHA256 of the period keyed by the secret.
\<close>

definition alphabet :: string where
  "alphabet = ''ABCDEFGHIJKLMNOPQRSTUVWXYZ0123456789''"

definition deriveCode_spec :: "string \<Rightarrow> string \<Rightarrow> nat \<Rightarrow> string" where
  "deriveCode_spec p s n =
     map (\<lambda>i. alphabet ! ((unat (hmac_sha256 (encode_utf8 s) (encode_utf8 p) ! (i mod 32)) + i) mod 36))
         [0..<n]"

text \<open>The canonical form \<open>MM-YYYY\<close> of the period of an instant.\<close>

definition period_of :: "datetime \<Rightarrow> string" where
  "period_of d = fmt_02d (month d) @ ''-'' @ str_nat (year d)"

text \<open>The last instant of a month as the specification describes it: 23:59:59 on its last day.\<close>

definition end_of_month :: "nat \<Rightarrow> nat \<Rightarrow> datetime" where
  "end_of_month y m =
     \<lparr>year = y, month = m, day = days_in_month y m,
      hour = 23, minute = 59, second = 59, microsecond = 0\<rparr>"

text \<open>
  Whether the line \<open>s\<close> typed at the prompt passes the validation when the clock reads \<open>t\<close>:
  after the dialogue's normalisation it is the code of the period of \<open>t\<close>.
\<close>

definition accepted :: "generator \<Rightarrow> datetime \<Rightarrow> string \<Rightarrow> bool" where
  "accepted self t s =
     (upper (strip s) = code_points (deriveCode_spec (period_of t) (secret_seed self) 8))"



section \<open>SHA-256 and HMAC on integers\<close>

text \<open>
  The functions of the first section once more, on the unsigned values of words and bytes
  with the reduction modulo \<open>2 ^ 32\<close> written out. They are proved equal to the word
  functions below and serve to compute digests of concrete periods.
\<close>

definition add32 :: "int \<Rightarrow> int \<Rightarrow> int" where
  "add32 x y = take_bit 32 (x + y)"

definition rotr_int :: "nat \<Rightarrow> int \<Rightarrow> int" where
  "rotr_int n x = drop_bit n x OR take_bit 32 (push_bit (32 - n) x)"

definition Ch_int :: "int \<Rightarrow> int \<Rightarrow> int \<Rightarrow> int" where
  "Ch_int x y z = (x AND y) XOR (take_bit 32 (NOT x) AND z)"

definition Maj_int :: "int \<Rightarrow> int \<Rightarrow> int \<Rightarrow> int" where
  "Maj_int x y z = (x AND y) XOR (x AND z) XOR (y AND z)"

definition bsig0_int :: "int \<Rightarrow> int" where
  "bsig0_int x = rotr_int 2 x XOR rotr_int 13 x XOR rotr_int 22 x"

definition bsig1_int :: "int \<Rightarrow> int" where
  "bsig1_int x = rotr_int 6 x XOR rotr_int 11 x XOR rotr_int 25 x"

definition ssig0_int :: "int \<Rightarrow> int" where
  "ssig0_int x = rotr_int 7 x XOR rotr_int 18 x XOR drop_bit 3 x"

definition ssig1_int :: "int \<Rightarrow> int" where
  "ssig1_int x = rotr_int 17 x XOR rotr_int 19 x XOR drop_bit 10 x"

definition be32_int :: "int \<Rightarrow> int \<Rightarrow> int \<Rightarrow> int \<Rightarrow> int" where
  "be32_int a b c d =
     take_bit 32 (push_bit 24 a) OR take_bit 32 (push_bit 16 b) OR take_bit 32 (push_bit 8 c) OR d"

definition u32_bytes_int :: "int \<Rightarrow> int list" where
  "u32_bytes_int w = [take_bit 8 (drop_bit 24 w), take_bit 8 (drop_bit 16 w),
                      take_bit 8 (drop_bit 8 w), take_bit 8 w]"

definition u64_bytes_int :: "nat \<Rightarrow> int list" where
  "u64_bytes_int n = map (\<lambda>k. take_bit 8 (drop_bit (8 * (7 - k)) (take_bit 64 (int n)))) [0..<8]"

definition pad_int :: "int list \<Rightarrow> int list" where
  "pad_int m = m @ [128] @ replicate ((119 - length m mod 64) mod 64) 0 @ u64_bytes_int (8 * length m)"

fun words_of_int :: "int list \<Rightarrow> int list" where
  "words_of_int (a # b # c # d # r) = be32_int a b c d # words_of_int r"
| "words_of_int _ = []"

fun schedule_int :: "nat \<Rightarrow> int list \<Rightarrow> int list" where
  "schedule_int 0 w = w"
| "schedule_int (Suc n) w =
     schedule_int n
       (w @ [add32 (add32 (add32 (ssig1_int (w ! (length w - 2))) (w ! (length w - 7)))
                          (ssig0_int (w ! (length w - 15)))) (w ! (length w - 16))])"

fun sha_round_int :: "int list \<Rightarrow> int \<times> int \<Rightarrow> int list" where
  "sha_round_int [a, b, c, d, e, f, g, h] (k, w) =
     (let t1 = add32 (add32 (add32 (add32 h (bsig1_int e)) (Ch_int e f g)) k) w;
          t2 = add32 (bsig0_int a) (Maj_int a b c)
      in [add32 t1 t2, a, b, c, add32 d t1, e, f, g])"
| "sha_round_int s _ = s"

definition compress_int :: "int list \<Rightarrow> int list \<Rightarrow> int list" where
  "compress_int h blk =
     map2 add32 h (foldl sha_round_int h (zip (map uint K256) (schedule_int 48 (words_of_int blk))))"

function blocks_int :: "int list \<Rightarrow> int list list" where
  "blocks_int bs = (if length bs < 64 then [] else take 64 bs # blocks_int (drop 64 bs))"
  by pat_completeness auto
termination
  by (relation "measure length") auto

definition sha256_int :: "int list \<Rightarrow> int list" where
  "sha256_int m = concat (map u32_bytes_int (foldl compress_int (map uint H0) (blocks_int (pad_int m))))"

definition hmac_sha256_int :: "int list \<Rightarrow> int list \<Rightarrow> int list" where
  "hmac_sha256_int key msg =
     (let k0 = (if 64 < length key then sha256_int key else key);
          k = k0 @ replicate (64 - length k0) 0
      in sha256_int (map (\<lambda>b. b XOR 92) k @ sha256_int (map (\<lambda>b. b XOR 54) k @ msg)))"

section \<open>Example environments\<close>

text \<open>
  An environment whose clock stands still at \<open>t\<close>, with the given pending input and the
  given outcome of every start of the telephony server.
\<close>

definition mk_dt :: "nat \<Rightarrow> nat \<Rightarrow> nat \<Rightarrow> nat \<Rightarrow> nat \<Rightarrow> nat \<Rightarrow> nat \<Rightarrow> datetime" where
  "mk_dt y mo d h mi s us =
     \<lparr>year = y, month = mo, day = d, hour = h, minute = mi, second = s, microsecond = us\<rparr>"

definition frozen_world :: "datetime \<Rightarrow> input_event list \<Rightarrow> bool \<Rightarrow> world" where
  "frozen_world t ins ok = \<lparr>clock = sconst t, stdin = ins, start_results = sconst ok, stdout = []\<rparr>"

definition june_2025 :: world where
  "june_2025 = frozen_world (mk_dt 2025 6 15 10 30 0 250000) [] True"

declare blocks.simps [simp del]
declare str_nat.simps [simp del]
declare prompt_loop.simps [simp del]
declare blocks_int.simps [simp del]

section \<open>The digest has 32 bytes\<close>

lemma length_sha_round: "length (sha_round s x) = length s"
  by (cases "(s, x)" rule: sha_round.cases) (simp_all add: Let_def)

lemma length_foldl_sha_round: "length (foldl sha_round h xs) = length h"
  by (induction xs arbitrary: h) (simp_all add: length_sha_round)

lemma length_compress: "length (compress h blk) = length h"
  by (simp add: compress_def length_foldl_sha_round)

lemma length_foldl_compress: "length (foldl compress h bs) = length h"
  by (induction bs arbitrary: h) (simp_all add: length_compress)

lemma length_concat_u32_bytes: "length (concat (map u32_bytes ws)) = 4 * length ws"
  by (induction ws) (simp_all add: u32_bytes_def)

lemma length_sha256: "length (sha256 m) = 32"
  by (simp add: sha256_def length_concat_u32_bytes length_foldl_compress H0_def)

lemma length_hmac_sha256: "length (hmac_sha256 key msg) = 32"
  by (simp add: hmac_sha256_def Let_def length_sha256)

lemma hmac_sha256_not_Nil: "hmac_sha256 key msg \<noteq> []"
  using length_hmac_sha256 [of key msg] by auto

lemma length_alphabet: "length alphabet = 36"
  by (simp add: alphabet_def)

lemma alphabet_not_Nil: "alphabet \<noteq> []"
  by (simp add: alphabet_def)

section \<open>The derivation loop\<close>

text \<open>
  With a non-empty digest and a non-empty alphabet the loop never raises: it appends one
  character per index. The three copies of the loop are treated alike.
\<close>

lemma code_loop_eq:
  assumes "hash_bytes \<noteq> []" and "chars \<noteq> []"
  shows "code_loop hash_bytes chars is acc =
           Inr (acc @ map (\<lambda>i. chars ! ((unat (hash_bytes ! (i mod length hash_bytes)) + i)
                                          mod length chars)) is)"
  using assms
  by (induction "is" arbitrary: acc) (simp_all add: py_mod_def index_def Let_def)

lemma code_loop_validator_eq:
  assumes "hash_bytes \<noteq> []" and "chars \<noteq> []"
  shows "code_loop_validator hash_bytes chars is acc =
           Inr (acc @ map (\<lambda>i. chars ! ((unat (hash_bytes ! (i mod length hash_bytes)) + i)
                                          mod length chars)) is)"
  using assms
  by (induction "is" arbitrary: acc) (simp_all add: py_mod_def index_def Let_def)

lemma code_loop_test_eq:
  assumes "hash_bytes \<noteq> []" and "chars \<noteq> []"
  shows "code_loop_test hash_bytes chars is acc =
           Inr (acc @ map (\<lambda>i. chars ! ((unat (hash_bytes ! (i mod length hash_bytes)) + i)
                                          mod length chars)) is)"
  using assms
  by (induction "is" arbitrary: acc) (simp_all add: py_mod_def index_def Let_def)

lemma generate_deterministic_code_eq:
  "generate_deterministic_code self (Some p) n w =
     (Inr (deriveCode_spec p (secret_seed self) (nat n)), w)"
  using code_loop_eq [OF hmac_sha256_not_Nil alphabet_not_Nil, of _ _ "[0..<nat n]" "[]"]
  by (simp add: generate_deterministic_code_def deriveCode_spec_def length_hmac_sha256
      length_alphabet alphabet_def [symmetric])

lemma generate_deterministic_code_validator_eq:
  "generate_deterministic_code_validator self (Some p) n w =
     (Inr (deriveCode_spec p (secret_seed self) (nat n)), w)"
  using code_loop_validator_eq [OF hmac_sha256_not_Nil alphabet_not_Nil, of _ _ "[0..<nat n]" "[]"]
  by (simp add: generate_deterministic_code_validator_def deriveCode_spec_def length_hmac_sha256
      length_alphabet alphabet_def [symmetric])

lemma generate_deterministic_code_test_eq:
  "generate_deterministic_code_test p n = Inr (deriveCode_spec p SECRET_SEED (nat n))"
  using code_loop_test_eq [OF hmac_sha256_not_Nil alphabet_not_Nil, of _ _ "[0..<nat n]" "[]"]
  by (simp add: generate_deterministic_code_test_def deriveCode_spec_def length_hmac_sha256
      length_alphabet alphabet_def [symmetric])

lemma generate_deterministic_code_None:
  "generate_deterministic_code self None n w =
     generate_deterministic_code self (Some (fst (get_current_period w))) n (snd (get_current_period w))"
  by (simp add: generate_deterministic_code_def split: prod.splits)

lemma length_deriveCode_spec: "length (deriveCode_spec p s n) = n"
  by (simp add: deriveCode_spec_def)

lemma deriveCode_spec_prefix:
  assumes "m \<le> n"
  shows "prefix (deriveCode_spec p s m) (deriveCode_spec p s n)"
proof -
  from assms have "[0..<n] = [0..<m] @ [m..<n]"
    by (metis le_add_diff_inverse upt_add_eq_append zero_le)
  then show ?thesis
    by (simp add: deriveCode_spec_def)
qed

text \<open>
  C1. For every period \<open>p\<close>, secret and length \<open>n\<close>, the generator (in serziam.py and in
  serziamvalidator.py) returns the concatenation, for \<open>i\<close> from 0 to \<open>n - 1\<close>, of the character
  at index \<open>(digest[i mod 32] + i) mod 36\<close> of the alphabet, where the digest is the 32-byte
  HMAC-SHA256 of the UTF-8 bytes of \<open>p\<close> keyed by the UTF-8 bytes of the secret.
\<close>

theorem C1_generate_deterministic_code_spec:
  "length (hmac_sha256 (encode_utf8 (secret_seed self)) (encode_utf8 p)) = 32 \<and>
   generate_deterministic_code self (Some p) n w =
     (Inr (deriveCode_spec p (secret_seed self) (nat n)), w) \<and>
   generate_deterministic_code_validator self (Some p) n w =
     (Inr (deriveCode_spec p (secret_seed self) (nat n)), w)"
  by (simp add: length_hmac_sha256 generate_deterministic_code_eq
      generate_deterministic_code_validator_eq)

theorem C1_generate_deterministic_code_spec_witness:
  "generate_deterministic_code HiddenAccessCodeManager (Some ''06-2025'') 2 june_2025 =
     (Inr [alphabet ! ((unat (hmac_sha256 (encode_utf8 SECRET_SEED) (encode_utf8 ''06-2025'') ! 0) + 0) mod 36),
           alphabet ! ((unat (hmac_sha256 (encode_utf8 SECRET_SEED) (encode_utf8 ''06-2025'') ! 1) + 1) mod 36)],
      june_2025)"
  using C1_generate_deterministic_code_spec [of HiddenAccessCodeManager "''06-2025''" 2 june_2025]
  by (simp add: deriveCode_spec_def HiddenAccessCodeManager_def upt_rec numeral_2_eq_2)

text \<open>
  C2. The derivation is deterministic: the result depends on the period, the secret and the
  length only. Two generator instances with the same secret return the same code whatever
  the state of the environment, and so do the copies of the function in serziam.py,
  serziamvalidator.py and serziamtest.py (the last one with the configured seed).
\<close>

theorem C2_generate_deterministic_code_deterministic:
  assumes "secret_seed g1 = secret_seed g2"
  shows "fst (generate_deterministic_code g1 (Some p) n w1) =
           fst (generate_deterministic_code g2 (Some p) n w2) \<and>
         fst (generate_deterministic_code g1 (Some p) n w1) =
           fst (generate_deterministic_code_validator g2 (Some p) n w2) \<and>
         (secret_seed g1 = SECRET_SEED \<longrightarrow>
            fst (generate_deterministic_code g1 (Some p) n w1) =
              generate_deterministic_code_test p n)"
  using assms
  by (simp add: generate_deterministic_code_eq generate_deterministic_code_validator_eq
      generate_deterministic_code_test_eq)

theorem C2_generate_deterministic_code_deterministic_witness:
  "fst (generate_deterministic_code HiddenAccessCodeManager (Some ''06-2025'') 8 june_2025) =
     fst (generate_deterministic_code \<lparr>secret_seed = SECRET_SEED\<rparr> (Some ''06-2025'') 8
            (frozen_world (mk_dt 2031 1 1 0 0 0 0) [] False)) \<and>
   fst (generate_deterministic_code HiddenAccessCodeManager (Some ''06-2025'') 8 june_2025) =
     fst (generate_deterministic_code_validator \<lparr>secret_seed = SECRET_SEED\<rparr> (Some ''06-2025'') 8
            (frozen_world (mk_dt 2031 1 1 0 0 0 0) [] False)) \<and>
   fst (generate_deterministic_code HiddenAccessCodeManager (Some ''06-2025'') 8 june_2025) =
     generate_deterministic_code_test ''06-2025'' 8"
proof -
  have same: "secret_seed HiddenAccessCodeManager = secret_seed \<lparr>secret_seed = SECRET_SEED\<rparr>"
    by (simp add: HiddenAccessCodeManager_def)
  have seed: "secret_seed HiddenAccessCodeManager = SECRET_SEED"
    by (simp add: HiddenAccessCodeManager_def)
  from C2_generate_deterministic_code_deterministic [OF same] seed show ?thesis
    by blast
qed

text \<open>
  C8. The derivation is total for every length, also beyond the 32 bytes of the digest:
  every access to the digest uses the index \<open>i mod 32\<close>, which is in bounds, every access to
  the alphabet uses the index \<open>(digest[i mod 32] + i) mod 36\<close>, which is in bounds, the sum
  is the exact sum of the byte and the index, and the function returns a code of the
  requested length, with or without an explicit period.
\<close>

theorem C8_generate_deterministic_code_total:
  fixes self :: generator and p :: string and n :: int and w :: world and my :: "string option"
  defines "digest \<equiv> hmac_sha256 (encode_utf8 (secret_seed self)) (encode_utf8 p)"
  shows "length digest = 32 \<and>
         (\<forall>i. py_mod i (length digest) = Inr (i mod 32) \<and>
              index digest (i mod 32) = Inr (digest ! (i mod 32)) \<and>
              py_mod (unat (digest ! (i mod 32)) + i) (length alphabet) =
                Inr ((unat (digest ! (i mod 32)) + i) mod 36) \<and>
              index alphabet ((unat (digest ! (i mod 32)) + i) mod 36) =
                Inr (alphabet ! ((unat (digest ! (i mod 32)) + i) mod 36))) \<and>
         (\<exists>code. fst (generate_deterministic_code self (Some p) n w) = Inr code \<and>
                 length code = nat n \<and>
                 (\<forall>i < nat n. code ! i = alphabet ! ((unat (digest ! (i mod 32)) + i) mod 36))) \<and>
         (\<exists>code. fst (generate_deterministic_code self my n w) = Inr code \<and> length code = nat n)"
proof -
  have len: "length digest = 32"
    by (simp add: digest_def length_hmac_sha256)
  have acc: "py_mod i (length digest) = Inr (i mod 32) \<and>
             index digest (i mod 32) = Inr (digest ! (i mod 32)) \<and>
             py_mod (unat (digest ! (i mod 32)) + i) (length alphabet) =
               Inr ((unat (digest ! (i mod 32)) + i) mod 36) \<and>
             index alphabet ((unat (digest ! (i mod 32)) + i) mod 36) =
               Inr (alphabet ! ((unat (digest ! (i mod 32)) + i) mod 36))" for i
    by (simp add: py_mod_def index_def len length_alphabet)
  have some: "\<exists>code. fst (generate_deterministic_code self (Some p) n w) = Inr code \<and>
                 length code = nat n \<and>
                 (\<forall>i < nat n. code ! i = alphabet ! ((unat (digest ! (i mod 32)) + i) mod 36))"
    by (simp add: generate_deterministic_code_eq deriveCode_spec_def digest_def)
  have any: "\<exists>code. fst (generate_deterministic_code self my n w) = Inr code \<and> length code = nat n"
    by (cases my)
       (simp_all add: generate_deterministic_code_None generate_deterministic_code_eq
          length_deriveCode_spec)
  from len acc some any show ?thesis
    by blast
qed

theorem C8_generate_deterministic_code_total_witness:
  "\<exists>code. fst (generate_deterministic_code HiddenAccessCodeManager (Some ''06-2025'') 40 june_2025) =
            Inr code \<and>
          length code = 40 \<and>
          code ! 35 = alphabet ! ((unat (hmac_sha256 (encode_utf8 SECRET_SEED)
                                           (encode_utf8 ''06-2025'') ! 3) + 35) mod 36)"
proof -
  let ?d = "hmac_sha256 (encode_utf8 (secret_seed HiddenAccessCodeManager)) (encode_utf8 ''06-2025'')"
  from C8_generate_deterministic_code_total [of HiddenAccessCodeManager "''06-2025''" 40 june_2025 None]
  obtain code where
    c: "fst (generate_deterministic_code HiddenAccessCodeManager (Some ''06-2025'') 40 june_2025) = Inr code"
    and l: "length code = nat 40"
    and a: "\<forall>i < nat 40. code ! i = alphabet ! ((unat (?d ! (i mod 32)) + i) mod 36)"
    by blast
  have "(35::nat) < nat 40"
    by simp
  with a have "code ! 35 = alphabet ! ((unat (?d ! (35 mod 32)) + 35) mod 36)"
    by blast
  with c l show ?thesis
    by (simp add: HiddenAccessCodeManager_def)
qed

text \<open>
  C9. For lengths \<open>m \<le> n\<close> the code of length \<open>m\<close> is a prefix of the code of length \<open>n\<close>
  for the same period and secret, and the code of length 0 is the empty string.
\<close>

theorem C9_generate_deterministic_code_prefix:
  assumes "m \<le> n"
  shows "(\<exists>cm cn. fst (generate_deterministic_code self (Some p) m w) = Inr cm \<and>
                  fst (generate_deterministic_code self (Some p) n w') = Inr cn \<and>
                  prefix cm cn) \<and>
         fst (generate_deterministic_code self (Some p) 0 w) = Inr ''''"
proof -
  from assms have "nat m \<le> nat n"
    by simp
  then have "prefix (deriveCode_spec p (secret_seed self) (nat m))
                    (deriveCode_spec p (secret_seed self) (nat n))"
    by (rule deriveCode_spec_prefix)
  moreover have "deriveCode_spec p (secret_seed self) (nat 0) = []"
    by (simp add: deriveCode_spec_def)
  ultimately show ?thesis
    by (simp add: generate_deterministic_code_eq)
qed

theorem C9_generate_deterministic_code_prefix_witness:
  "\<exists>cm cn. fst (generate_deterministic_code HiddenAccessCodeManager (Some ''06-2025'') 8 june_2025) = Inr cm \<and>
           fst (generate_deterministic_code HiddenAccessCodeManager (Some ''06-2025'') 40 june_2025) = Inr cn \<and>
           prefix cm cn"
proof -
  have "(8::int) \<le> 40"
    by simp
  from C9_generate_deterministic_code_prefix
         [OF this, of HiddenAccessCodeManager "''06-2025''" june_2025 june_2025]
  show ?thesis
    by simp
qed

section \<open>The period, the current code and the expiry\<close>

lemma get_current_period_eq:
  "get_current_period w = (period_of (shd (clock w)), w\<lparr>clock := stl (clock w)\<rparr>)"
  by (simp add: get_current_period_def now_def period_of_def)

lemma get_current_period_validator_eq:
  "get_current_period_validator w = (period_of (shd (clock w)), w\<lparr>clock := stl (clock w)\<rparr>)"
  by (simp add: get_current_period_validator_def now_def period_of_def)

lemma get_current_code_eq:
  "get_current_code self w =
     (Inr (deriveCode_spec (period_of (shd (clock w))) (secret_seed self) 8),
      w\<lparr>clock := stl (clock w)\<rparr>)"
  by (simp add: get_current_code_def generate_deterministic_code_eq get_current_period_eq)

lemma get_current_code_validator_eq:
  "get_current_code_validator self w =
     (Inr (deriveCode_spec (period_of (shd (clock w))) (secret_seed self) 8),
      w\<lparr>clock := stl (clock w)\<rparr>)"
  by (simp add: get_current_code_validator_def generate_deterministic_code_validator_eq
      get_current_period_validator_eq)

lemma days_in_month_ge_28: "28 \<le> days_in_month y m"
  by (simp add: days_in_month_def)

lemma expiry_eq:
  assumes "1 \<le> m" and "m \<le> 12" and "1 \<le> y" and "y \<le> 9999" and "\<not> (y = 9999 \<and> m = 12)"
  shows "(case (if m = 12 then mk_datetime (y + 1) 1 1 else mk_datetime y (m + 1) 1) of
            Inl e \<Rightarrow> (Inl e, w)
          | Inr next_month \<Rightarrow>
              (case minus_one_day next_month of Inl e \<Rightarrow> (Inl e, w)
               | Inr expires_at \<Rightarrow> (Inr (code, replace_hms expires_at 23 59 59), w))) =
         (Inr (code, end_of_month y m), w)"
proof (cases "m = 12")
  case True
  with assms show ?thesis
    by (simp add: mk_datetime_def minus_one_day_def days_in_month_def replace_hms_def
        end_of_month_def)
next
  case False
  with assms have "mk_datetime y (m + 1) 1 =
      Inr \<lparr>year = y, month = m + 1, day = 1, hour = 0, minute = 0, second = 0, microsecond = 0\<rparr>"
    using days_in_month_ge_28 [of y "m + 1"] by (simp add: mk_datetime_def)
  with False assms show ?thesis
    by (simp add: minus_one_day_def replace_hms_def end_of_month_def)
qed

lemma get_current_code_with_expiry_eq:
  assumes "1 \<le> month (shd (clock w))" and "month (shd (clock w)) \<le> 12"
    and "1 \<le> year (shd (clock w))" and "year (shd (clock w)) \<le> 9999"
    and "\<not> (year (shd (clock w)) = 9999 \<and> month (shd (clock w)) = 12)"
  shows "get_current_code_with_expiry self w =
           (Inr (deriveCode_spec (period_of (shd (stl (stl (clock w))))) (secret_seed self) 8,
                 end_of_month (year (shd (clock w))) (month (shd (clock w)))),
            w\<lparr>clock := stl (stl (stl (clock w)))\<rparr>)"
proof -
  let ?d = "shd (clock w)"
  let ?w3 = "w\<lparr>clock := stl (stl (stl (clock w)))\<rparr>"
  let ?code = "deriveCode_spec (period_of (shd (stl (stl (clock w))))) (secret_seed self) 8"
  have "get_current_code_with_expiry self w =
          (case (if month ?d = 12 then mk_datetime (year ?d + 1) 1 1
                 else mk_datetime (year ?d) (month ?d + 1) 1) of
             Inl e \<Rightarrow> (Inl e, ?w3)
           | Inr next_month \<Rightarrow>
               (case minus_one_day next_month of Inl e \<Rightarrow> (Inl e, ?w3)
                | Inr expires_at \<Rightarrow> (Inr (?code, replace_hms expires_at 23 59 59), ?w3)))"
    by (simp add: get_current_code_with_expiry_def now_def get_current_period_eq get_current_code_eq cong del: sum.case_cong_weak)
  also have "\<dots> = (Inr (?code, end_of_month (year ?d) (month ?d)), ?w3)"
    using assms by (rule expiry_eq)
  finally show ?thesis .
qed

lemma display_code_status_validator_eq:
  assumes "1 \<le> month (shd (clock w))" and "month (shd (clock w)) \<le> 12"
    and "1 \<le> year (shd (clock w))" and "year (shd (clock w)) \<le> 9999"
    and "\<not> (year (shd (clock w)) = 9999 \<and> month (shd (clock w)) = 12)"
  shows "display_code_status_validator self w =
           (Inr (deriveCode_spec (period_of (shd (stl (stl (clock w))))) (secret_seed self) 8,
                 end_of_month (year (shd (clock w))) (month (shd (clock w)))),
            w\<lparr>clock := stl (stl (stl (clock w)))\<rparr>)"
proof -
  let ?d = "shd (clock w)"
  let ?w3 = "w\<lparr>clock := stl (stl (stl (clock w)))\<rparr>"
  let ?code = "deriveCode_spec (period_of (shd (stl (stl (clock w))))) (secret_seed self) 8"
  have "display_code_status_validator self w =
          (case (if month ?d = 12 then mk_datetime (year ?d + 1) 1 1
                 else mk_datetime (year ?d) (month ?d + 1) 1) of
             Inl e \<Rightarrow> (Inl e, ?w3)
           | Inr next_month \<Rightarrow>
               (case minus_one_day next_month of Inl e \<Rightarrow> (Inl e, ?w3)
                | Inr expires_at \<Rightarrow> (Inr (?code, replace_hms expires_at 23 59 59), ?w3)))"
    by (simp add: display_code_status_validator_def now_def get_current_period_validator_eq get_current_code_validator_eq cong del: sum.case_cong_weak)
  also have "\<dots> = (Inr (?code, end_of_month (year ?d) (month ?d)), ?w3)"
    using assms by (rule expiry_eq)
  finally show ?thesis .
qed

lemma is_code_expired_eq:
  assumes "1 \<le> month (shd (clock w))" and "month (shd (clock w)) \<le> 12"
    and "1 \<le> year (shd (clock w))" and "year (shd (clock w)) \<le> 9999"
    and "\<not> (year (shd (clock w)) = 9999 \<and> month (shd (clock w)) = 12)"
  shows "is_code_expired self w =
           (Inr (dt_gt (shd (stl (stl (stl (clock w)))))
                       (end_of_month (year (shd (clock w))) (month (shd (clock w))))),
            w\<lparr>clock := stl (stl (stl (stl (clock w))))\<rparr>)"
  by (simp add: is_code_expired_def get_current_code_with_expiry_eq [OF assms] now_def)

lemma dt_gt_end_of_month:
  assumes "valid_datetime t"
  shows "dt_gt t (end_of_month (year t) (month t)) =
           (day t = days_in_month (year t) (month t) \<and> hour t = 23 \<and> minute t = 59 \<and>
            second t = 59 \<and> 0 < microsecond t)"
  using assms
  by (auto simp add: dt_gt_def dt_key_def end_of_month_def valid_datetime_def)

lemma frozen_clock [simp]:
  "clock (frozen_world t ins ok) = sconst t"
  by (simp add: frozen_world_def)

text \<open>
  C3 (as amended). For every period with month in 1..12 and year in 1..9999 other than
  December 9999, the expiry returned with the code, in serziam.py and in serziamvalidator.py,
  is 23:59:59 on the last calendar day of the month of the invocation; December rolls to
  January of the following year before the day is subtracted.
\<close>

theorem C3_expiry_end_of_month:
  assumes "1 \<le> month (shd (clock w))" and "month (shd (clock w)) \<le> 12"
    and "1 \<le> year (shd (clock w))" and "year (shd (clock w)) \<le> 9999"
    and "\<not> (year (shd (clock w)) = 9999 \<and> month (shd (clock w)) = 12)"
  shows "map_sum id snd (fst (get_current_code_with_expiry self w)) =
           Inr (end_of_month (year (shd (clock w))) (month (shd (clock w)))) \<and>
         map_sum id snd (fst (display_code_status_validator self w)) =
           Inr (end_of_month (year (shd (clock w))) (month (shd (clock w))))"
  by (simp add: get_current_code_with_expiry_eq [OF assms]
      display_code_status_validator_eq [OF assms])

theorem C3_expiry_end_of_month_witness:
  "map_sum id snd (fst (get_current_code_with_expiry HiddenAccessCodeManager
       (frozen_world (mk_dt 2024 12 10 8 0 0 5) [] True))) = Inr (mk_dt 2024 12 31 23 59 59 0) \<and>
   map_sum id snd (fst (get_current_code_with_expiry HiddenAccessCodeManager
       (frozen_world (mk_dt 2024 2 10 8 0 0 5) [] True))) = Inr (mk_dt 2024 2 29 23 59 59 0) \<and>
   map_sum id snd (fst (display_code_status_validator HiddenAccessCodeManager
       (frozen_world (mk_dt 2025 2 10 8 0 0 5) [] True))) = Inr (mk_dt 2025 2 28 23 59 59 0)"
  using C3_expiry_end_of_month
          [of "frozen_world (mk_dt 2024 12 10 8 0 0 5) [] True" HiddenAccessCodeManager]
        C3_expiry_end_of_month
          [of "frozen_world (mk_dt 2024 2 10 8 0 0 5) [] True" HiddenAccessCodeManager]
        C3_expiry_end_of_month
          [of "frozen_world (mk_dt 2025 2 10 8 0 0 5) [] True" HiddenAccessCodeManager]
  by (simp add: mk_dt_def end_of_month_def days_in_month_def is_leap_def)

text \<open>
  The claim as stated fails in December 9999, a period with month 12 and year at least
  1970: the first day of the next month is outside the range of \<^verbatim>\<open>datetime\<close>.
\<close>

theorem C3_expiry_counterexample:
  "valid_datetime (mk_dt 9999 12 15 10 30 0 0) \<and>
   fst (get_current_code_with_expiry HiddenAccessCodeManager
          (frozen_world (mk_dt 9999 12 15 10 30 0 0) [] True)) = Inl ValueError"
  by (simp add: valid_datetime_def mk_dt_def days_in_month_def get_current_code_with_expiry_def
      now_def get_current_period_eq get_current_code_eq mk_datetime_def)

lemma period_of_microsecond [simp]: "period_of (t\<lparr>microsecond := us\<rparr>) = period_of t"
  by (simp add: period_of_def)

text \<open>
  C10 (as amended). Outside December 9999, where the computation raises ValueError and no
  expiry is returned, the expiry is built from \<^verbatim>\<open>datetime(year, month + 1, 1)\<close>
  (\<^verbatim>\<open>datetime(year + 1, 1, 1)\<close> in December), whose time fields are all zero, and not from
  the invocation time: after the day is subtracted and hour, minute and second are replaced
  by 23, 59 and 59 its microsecond field is 0. For every invocation instant, whatever its
  microsecond, the expiry returned is exactly 23:59:59.000000 on the last day of the month of
  the invocation, the result does not change when the microseconds of the clock readings
  change, and \<open>is_code_expired\<close> compares with that instant.
\<close>

theorem C10_expiry_microsecond_zero:
  assumes "1 \<le> month (shd (clock w))" and "month (shd (clock w)) \<le> 12"
    and "1 \<le> year (shd (clock w))" and "year (shd (clock w)) \<le> 9999"
    and "\<not> (year (shd (clock w)) = 9999 \<and> month (shd (clock w)) = 12)"
  shows "(\<exists>code.
            fst (get_current_code_with_expiry self w) =
              Inr (code, \<lparr>year = year (shd (clock w)), month = month (shd (clock w)),
                          day = days_in_month (year (shd (clock w))) (month (shd (clock w))),
                          hour = 23, minute = 59, second = 59, microsecond = 0\<rparr>) \<and>
            fst (display_code_status_validator self w) =
              Inr (code, \<lparr>year = year (shd (clock w)), month = month (shd (clock w)),
                          day = days_in_month (year (shd (clock w))) (month (shd (clock w))),
                          hour = 23, minute = 59, second = 59, microsecond = 0\<rparr>)) \<and>
         fst (get_current_code_with_expiry self
                (w\<lparr>clock := smap (\<lambda>t. t\<lparr>microsecond := us\<rparr>) (clock w)\<rparr>)) =
           fst (get_current_code_with_expiry self w) \<and>
         fst (is_code_expired self w) =
           Inr (dt_gt (shd (stl (stl (stl (clock w)))))
                  \<lparr>year = year (shd (clock w)), month = month (shd (clock w)),
                   day = days_in_month (year (shd (clock w))) (month (shd (clock w))),
                   hour = 23, minute = 59, second = 59, microsecond = 0\<rparr>)"
proof -
  let ?w' = "w\<lparr>clock := smap (\<lambda>t. t\<lparr>microsecond := us\<rparr>) (clock w)\<rparr>"
  have a': "1 \<le> month (shd (clock ?w'))" "month (shd (clock ?w')) \<le> 12"
    "1 \<le> year (shd (clock ?w'))" "year (shd (clock ?w')) \<le> 9999"
    "\<not> (year (shd (clock ?w')) = 9999 \<and> month (shd (clock ?w')) = 12)"
    using assms by simp_all
  have "fst (get_current_code_with_expiry self ?w') = fst (get_current_code_with_expiry self w)"
    by (simp add: get_current_code_with_expiry_eq [OF assms]
        get_current_code_with_expiry_eq [OF a'])
  then show ?thesis
    by (simp add: get_current_code_with_expiry_eq [OF assms]
        display_code_status_validator_eq [OF assms] is_code_expired_eq [OF assms]
        end_of_month_def)
qed

theorem C10_expiry_microsecond_zero_witness:
  "(\<exists>code. fst (get_current_code_with_expiry HiddenAccessCodeManager june_2025) =
             Inr (code, mk_dt 2025 6 30 23 59 59 0)) \<and>
   microsecond (shd (clock june_2025)) = 250000 \<and>
   fst (get_current_code_with_expiry HiddenAccessCodeManager
          (june_2025\<lparr>clock := smap (\<lambda>t. t\<lparr>microsecond := 0\<rparr>) (clock june_2025)\<rparr>)) =
     fst (get_current_code_with_expiry HiddenAccessCodeManager june_2025) \<and>
   fst (is_code_expired HiddenAccessCodeManager june_2025) = Inr False"
proof -
  have a: "1 \<le> month (shd (clock june_2025))" "month (shd (clock june_2025)) \<le> 12"
    "1 \<le> year (shd (clock june_2025))" "year (shd (clock june_2025)) \<le> 9999"
    "\<not> (year (shd (clock june_2025)) = 9999 \<and> month (shd (clock june_2025)) = 12)"
    by (simp_all add: june_2025_def mk_dt_def)
  let ?e = "\<lparr>year = year (shd (clock june_2025)), month = month (shd (clock june_2025)),
             day = days_in_month (year (shd (clock june_2025))) (month (shd (clock june_2025))),
             hour = 23, minute = 59, second = 59, microsecond = 0\<rparr>"
  note t = C10_expiry_microsecond_zero [OF a, of HiddenAccessCodeManager 0]
  have e: "?e = mk_dt 2025 6 30 23 59 59 0"
    by (simp add: june_2025_def mk_dt_def days_in_month_def)
  from t obtain code where
    c: "fst (get_current_code_with_expiry HiddenAccessCodeManager june_2025) = Inr (code, ?e)"
    by blast
  from t have m: "fst (get_current_code_with_expiry HiddenAccessCodeManager
          (june_2025\<lparr>clock := smap (\<lambda>t. t\<lparr>microsecond := 0\<rparr>) (clock june_2025)\<rparr>)) =
     fst (get_current_code_with_expiry HiddenAccessCodeManager june_2025)"
    by blast
  from t have "fst (is_code_expired HiddenAccessCodeManager june_2025) =
      Inr (dt_gt (shd (stl (stl (stl (clock june_2025))))) ?e)"
    by blast
  moreover have "\<not> dt_gt (shd (stl (stl (stl (clock june_2025))))) (mk_dt 2025 6 30 23 59 59 0)"
    by (simp add: june_2025_def mk_dt_def dt_gt_def dt_key_def)
  ultimately have x: "fst (is_code_expired HiddenAccessCodeManager june_2025) = Inr False"
    by (simp only: e)
  have u: "microsecond (shd (clock june_2025)) = 250000"
    by (simp add: june_2025_def mk_dt_def)
  from c have "\<exists>code. fst (get_current_code_with_expiry HiddenAccessCodeManager june_2025) =
             Inr (code, mk_dt 2025 6 30 23 59 59 0)"
    by (simp only: e) blast
  with u m x show ?thesis
    by blast
qed

text \<open>
  The claim as stated fails at an invocation with a non-zero microsecond field: the expiry
  has microsecond 0 and is not later than 23:59:59.000000 of the last day of the month.
\<close>

theorem C10_expiry_microsecond_counterexample:
  "microsecond (shd (clock june_2025)) = 250000 \<and>
   map_sum id snd (fst (get_current_code_with_expiry HiddenAccessCodeManager june_2025)) =
     Inr (mk_dt 2025 6 30 23 59 59 0) \<and>
   map_sum id (microsecond \<circ> snd) (fst (get_current_code_with_expiry HiddenAccessCodeManager june_2025)) =
     Inr 0 \<and>
   \<not> dt_gt (mk_dt 2025 6 30 23 59 59 0) (mk_dt 2025 6 30 23 59 59 0)"
  by (simp add: june_2025_def mk_dt_def get_current_code_with_expiry_eq end_of_month_def
      days_in_month_def dt_gt_def dt_key_def)

text \<open>
  C7 (as amended). \<open>is_code_expired\<close> reads the clock four times; outside December 9999 it
  returns whether the last reading is later than 23:59:59.000000 on the last day of the
  month of the first reading. When the readings are one instant \<open>now\<close>, it is false from
  the start of the month of \<open>now\<close> up to and including 23:59:59.000000 of its last day, and
  true in the rest of that last second.
\<close>

theorem C7_is_code_expired_iff:
  assumes "clock w = t1 ## t2 ## t3 ## t4 ## rest"
    and "valid_datetime t1" and "\<not> (year t1 = 9999 \<and> month t1 = 12)"
  shows "fst (is_code_expired self w) = Inr (dt_gt t4 (end_of_month (year t1) (month t1))) \<and>
         (t4 = t1 \<longrightarrow>
            fst (is_code_expired self w) =
              Inr (day t1 = days_in_month (year t1) (month t1) \<and> hour t1 = 23 \<and>
                   minute t1 = 59 \<and> second t1 = 59 \<and> 0 < microsecond t1))"
proof -
  have a: "1 \<le> month (shd (clock w))" "month (shd (clock w)) \<le> 12"
    "1 \<le> year (shd (clock w))" "year (shd (clock w)) \<le> 9999"
    "\<not> (year (shd (clock w)) = 9999 \<and> month (shd (clock w)) = 12)"
    using assms by (simp_all add: valid_datetime_def)
  have "fst (is_code_expired self w) = Inr (dt_gt t4 (end_of_month (year t1) (month t1)))"
    by (simp add: is_code_expired_eq [OF a] assms(1))
  then show ?thesis
    using dt_gt_end_of_month [OF assms(2)] by simp
qed

theorem C7_is_code_expired_iff_witness:
  "fst (is_code_expired HiddenAccessCodeManager
          (frozen_world (mk_dt 2025 6 30 23 59 59 0) [] True)) = Inr False \<and>
   fst (is_code_expired HiddenAccessCodeManager
          (frozen_world (mk_dt 2025 6 15 10 30 0 250000) [] True)) = Inr False \<and>
   fst (is_code_expired HiddenAccessCodeManager
          (frozen_world (mk_dt 2025 6 30 23 59 59 1) [] True)) = Inr True"
proof -
  have c: "clock (frozen_world t [] True) = t ## t ## t ## t ## sconst t" for t
  proof -
    have "sconst t = t ## sconst t"
      by (subst siterate.code) simp
    then show ?thesis
      by (simp add: frozen_world_def)
  qed
  have v: "valid_datetime (mk_dt 2025 6 30 23 59 59 0)"
    "valid_datetime (mk_dt 2025 6 15 10 30 0 250000)"
    "valid_datetime (mk_dt 2025 6 30 23 59 59 1)"
    by (simp_all add: valid_datetime_def mk_dt_def days_in_month_def)
  have n: "\<not> (year (mk_dt 2025 6 30 23 59 59 0) = 9999 \<and> month (mk_dt 2025 6 30 23 59 59 0) = 12)"
    "\<not> (year (mk_dt 2025 6 15 10 30 0 250000) = 9999 \<and> month (mk_dt 2025 6 15 10 30 0 250000) = 12)"
    "\<not> (year (mk_dt 2025 6 30 23 59 59 1) = 9999 \<and> month (mk_dt 2025 6 30 23 59 59 1) = 12)"
    by (simp_all add: mk_dt_def)
  from C7_is_code_expired_iff [OF c v(1) n(1), of HiddenAccessCodeManager]
       C7_is_code_expired_iff [OF c v(2) n(2), of HiddenAccessCodeManager]
       C7_is_code_expired_iff [OF c v(3) n(3), of HiddenAccessCodeManager]
  show ?thesis
    by (simp add: mk_dt_def days_in_month_def end_of_month_def dt_gt_def dt_key_def)
qed

text \<open>
  The claim as stated fails in the last second of a month: the instant
  2025-06-30 23:59:59.500000 lies in June 2025 and the code is reported expired.
\<close>

theorem C7_is_code_expired_counterexample:
  "valid_datetime (mk_dt 2025 6 30 23 59 59 500000) \<and>
   fst (is_code_expired HiddenAccessCodeManager
          (frozen_world (mk_dt 2025 6 30 23 59 59 500000) [] True)) = Inr True"
  by (simp add: valid_datetime_def mk_dt_def days_in_month_def is_code_expired_eq
      end_of_month_def dt_gt_def dt_key_def)

section \<open>Validation and the unlock dialogue\<close>

lemma validate_code_eq:
  "validate_code self x w =
     (Inr (x = code_points (deriveCode_spec (period_of (shd (clock w))) (secret_seed self) 8)),
      w\<lparr>clock := stl (clock w)\<rparr>)"
  by (simp add: validate_code_def get_current_code_eq)


lemma prompt_loop_nonpos:
  "\<not> 0 < n \<Longrightarrow> prompt_loop self n w = (Inr False, w)"
  by (simp add: prompt_loop.simps)

lemma prompt_loop_eof:
  "0 < n \<Longrightarrow> stdin w = [] \<Longrightarrow> prompt_loop self n w = (Inl EOFError, w)"
  by (simp add: prompt_loop.simps)

lemma prompt_loop_interrupt:
  "0 < n \<Longrightarrow> stdin w = KeyboardInterrupt # rest \<Longrightarrow>
     prompt_loop self n w = (Inr False, w\<lparr>stdin := rest, stdout := stdout w @ [MsgCancelled]\<rparr>)"
  by (simp add: prompt_loop.simps print_def)

lemma prompt_loop_accepted:
  "0 < n \<Longrightarrow> stdin w = Line s # rest \<Longrightarrow> accepted self (shd (clock w)) s \<Longrightarrow>
     prompt_loop self n w =
       (Inr (shd (start_results w)),
        w\<lparr>clock := stl (clock w), stdin := rest, start_results := stl (start_results w),
          stdout := stdout w @ [MsgCodeCorrect,
                                if shd (start_results w) then MsgUnlocked else MsgRestartError]\<rparr>)"
  by (simp add: prompt_loop.simps [of self n w] validate_code_eq accepted_def print_def
      asterisk_start_def)

lemma prompt_loop_rejected:
  "0 < n \<Longrightarrow> stdin w = Line s # rest \<Longrightarrow> \<not> accepted self (shd (clock w)) s \<Longrightarrow>
     prompt_loop self n w =
       (if 0 < n - 1
        then prompt_loop self (n - 1)
               (w\<lparr>stdin := rest, clock := stl (clock w),
                  stdout := stdout w @ [MsgIncorrect (n - 1)]\<rparr>)
        else (Inr False, w\<lparr>stdin := rest, clock := stl (clock w),
                            stdout := stdout w @ [MsgTooManyAttempts]\<rparr>))"
  by (simp add: prompt_loop.simps [of self n w] validate_code_eq accepted_def print_def
      cong del: if_weak_cong)

lemma prompt_for_new_code_eq:
  "prompt_for_new_code self w = prompt_loop self 3 (w\<lparr>clock := stl (stl (stl (clock w)))\<rparr>)"
  by (simp add: prompt_for_new_code_def now_def get_current_period_eq get_current_code_eq)

lemma length_strip_le: "length (strip s) \<le> length s"
proof -
  have "length (dropWhile is_space (rev (dropWhile is_space s))) \<le> length (rev (dropWhile is_space s))"
    by (rule length_dropWhile_le)
  also have "\<dots> \<le> length s"
    by (simp add: length_dropWhile_le)
  finally show ?thesis
    by (simp add: strip_def)
qed

text \<open>A character gives one or two characters in upper case.\<close>

lemma length_upper_char: "length (upper_char c) \<le> 2"
  by (simp add: upper_char_def Let_def)

lemma length_upper_le: "length (upper s) \<le> 2 * length s"
proof (induction s)
  case Nil
  then show ?case
    by (simp add: upper_def)
next
  case (Cons c s)
  then show ?case
    using length_upper_char [of c] by (simp add: upper_def)
qed

lemma length_code_points [simp]: "length (code_points s) = length s"
  by (simp add: code_points_def)

lemma short_line_rejected:
  assumes "length s < 4"
  shows "\<not> accepted self t s"
proof
  assume "accepted self t s"
  then have "length (upper (strip s)) = 8"
    by (simp add: accepted_def length_deriveCode_spec)
  moreover have "length (upper (strip s)) \<le> 2 * length s"
    using length_upper_le [of "strip s"] length_strip_le [of s] by simp
  ultimately show False
    using assms by simp
qed

lemma dropWhile_none:
  assumes "\<forall>c \<in> set xs. \<not> P c"
  shows "dropWhile P xs = xs"
  using assms by (cases xs) simp_all

lemma strip_no_space:
  assumes "\<forall>c \<in> set s. \<not> is_space c"
  shows "strip s = s"
proof -
  have a: "dropWhile is_space s = s"
    using assms by (rule dropWhile_none)
  have "\<forall>c \<in> set (rev s). \<not> is_space c"
    using assms by simp
  then have "dropWhile is_space (rev s) = rev s"
    by (rule dropWhile_none)
  with a show ?thesis
    by (simp add: strip_def)
qed

lemma alphabet_chars:
  assumes "c \<in> set alphabet"
  shows "(48 \<le> (of_char c :: nat) \<and> (of_char c :: nat) \<le> 57) \<or>
         (65 \<le> (of_char c :: nat) \<and> (of_char c :: nat) \<le> 90)"
  using assms by (auto simp add: alphabet_def)

lemma set_deriveCode_spec: "set (deriveCode_spec p s n) \<subseteq> set alphabet"
  by (auto simp add: deriveCode_spec_def length_alphabet)

lemma upper_fixed:
  assumes "\<forall>c \<in> set s. upper_char c = [of_char c]"
  shows "upper s = code_points s"
  using assms by (induction s) (simp_all add: upper_def code_points_def)

lemma code_no_space: "\<forall>c \<in> set (deriveCode_spec p s n). \<not> is_space c"
  using set_deriveCode_spec [of p s n] alphabet_chars by (fastforce simp add: is_space_def)

lemma upper_code: "upper (deriveCode_spec p s n) = code_points (deriveCode_spec p s n)"
proof (rule upper_fixed)
  show "\<forall>c \<in> set (deriveCode_spec p s n). upper_char c = [of_char c]"
    using set_deriveCode_spec [of p s n] alphabet_chars by (fastforce simp add: upper_char_def)
qed

lemma upper_strip_code:
  "upper (strip (deriveCode_spec p s n)) = code_points (deriveCode_spec p s n)"
  by (simp add: strip_no_space code_no_space upper_code)

lemma code_accepted: "accepted self t (deriveCode_spec (period_of t) (secret_seed self) 8)"
  by (simp add: accepted_def upper_strip_code)

lemma prompt_loop_run:
  assumes "prompt_loop self n w = (r, w')"
  shows "\<exists>ms. stdout w' = stdout w @ ms \<and>
           length (stdin w') \<le> length (stdin w) \<and>
           length (stdin w) \<le> length (stdin w') + nat n \<and>
           (MsgTooManyAttempts \<in> set ms \<longrightarrow>
              r = Inr False \<and> 0 < n \<and> length (stdin w) = length (stdin w') + nat n \<and>
              (\<forall>k < nat n. \<exists>s. stdin w ! k = Line s \<and> \<not> accepted self (clock w !! k) s))"
  using assms
proof (induction m \<equiv> "nat n" arbitrary: n w)
  case 0
  then have "\<not> 0 < n"
    by simp
  with "0.prems" have "w' = w"
    by (simp add: prompt_loop_nonpos)
  then show ?case
    by simp
next
  case (Suc m)
  then have pos: "0 < n" and m: "m = nat (n - 1)"
    by simp_all
  show ?case
  proof (cases "stdin w")
    case Nil
    with pos Suc.prems have "w' = w"
      by (simp add: prompt_loop_eof)
    then show ?thesis
      by simp
  next
    case (Cons ev rest)
    show ?thesis
    proof (cases ev)
      case KeyboardInterrupt
      with Cons pos Suc.prems
      have "w' = w\<lparr>stdin := rest, stdout := stdout w @ [MsgCancelled]\<rparr>"
        by (simp add: prompt_loop_interrupt)
      with Cons pos show ?thesis
        by simp
    next
      case (Line s)
      show ?thesis
      proof (cases "accepted self (shd (clock w)) s")
        case True
        with Line Cons pos Suc.prems
        have "w' = w\<lparr>clock := stl (clock w), stdin := rest,
                     start_results := stl (start_results w),
                     stdout := stdout w @ [MsgCodeCorrect,
                       if shd (start_results w) then MsgUnlocked else MsgRestartError]\<rparr>"
          by (simp add: prompt_loop_accepted)
        with Cons pos show ?thesis
          by simp
      next
        case False
        let ?w1 = "w\<lparr>stdin := rest, clock := stl (clock w),
                      stdout := stdout w @ [MsgIncorrect (n - 1)]\<rparr>"
        show ?thesis
        proof (cases "0 < n - 1")
          case more: True
          with False Line Cons pos Suc.prems have run: "prompt_loop self (n - 1) ?w1 = (r, w')"
            by (simp add: prompt_loop_rejected)
          from Suc.hyps(1) [OF m run] obtain ms where
            out: "stdout w' = stdout ?w1 @ ms"
            and le1: "length (stdin w') \<le> length (stdin ?w1)"
            and le2: "length (stdin ?w1) \<le> length (stdin w') + nat (n - 1)"
            and ex: "MsgTooManyAttempts \<in> set ms \<longrightarrow>
                       r = Inr False \<and> 0 < n - 1 \<and>
                       length (stdin ?w1) = length (stdin w') + nat (n - 1) \<and>
                       (\<forall>k < nat (n - 1). \<exists>s. stdin ?w1 ! k = Line s \<and>
                                              \<not> accepted self (clock ?w1 !! k) s)"
            by blast
          have all: "\<forall>k < nat n. \<exists>s. stdin w ! k = Line s \<and> \<not> accepted self (clock w !! k) s"
            if t: "MsgTooManyAttempts \<in> set ms"
          proof (intro allI impI)
            fix k
            assume k: "k < nat n"
            show "\<exists>s. stdin w ! k = Line s \<and> \<not> accepted self (clock w !! k) s"
            proof (cases k)
              case 0
              with False Line Cons show ?thesis
                by simp
            next
              case (Suc j)
              with k pos have "j < nat (n - 1)"
                by simp
              with ex t obtain s' where "stdin ?w1 ! j = Line s'"
                and "\<not> accepted self (clock ?w1 !! j) s'"
                by blast
              with Suc Cons show ?thesis
                by simp
            qed
          qed
          have "stdout w' = stdout w @ (MsgIncorrect (n - 1) # ms)"
            using out by simp
          moreover have "length (stdin w') \<le> length (stdin w)"
            using le1 Cons by simp
          moreover have "length (stdin w) \<le> length (stdin w') + nat n"
            using le2 Cons pos by simp
          moreover have "MsgTooManyAttempts \<in> set (MsgIncorrect (n - 1) # ms) \<longrightarrow>
              r = Inr False \<and> 0 < n \<and> length (stdin w) = length (stdin w') + nat n \<and>
              (\<forall>k < nat n. \<exists>s. stdin w ! k = Line s \<and> \<not> accepted self (clock w !! k) s)"
            using ex all Cons pos by auto
          ultimately show ?thesis
            by blast
        next
          case last: False
          with False Line Cons pos Suc.prems
          have w': "w' = w\<lparr>stdin := rest, clock := stl (clock w),
                           stdout := stdout w @ [MsgTooManyAttempts]\<rparr>"
            and r: "r = Inr False"
            by (simp_all add: prompt_loop_rejected)
          from last pos have n1: "nat n = 1"
            by simp
          have "\<forall>k < nat n. \<exists>s. stdin w ! k = Line s \<and> \<not> accepted self (clock w !! k) s"
            using n1 False Line Cons by simp
          with w' r pos n1 Cons show ?thesis
            by simp
        qed
      qed
    qed
  qed
qed

lemma three_rejected:
  assumes "stdin w = Line s1 # Line s2 # Line s3 # later"
    and "\<not> accepted self (shd (clock w)) s1"
    and "\<not> accepted self (shd (stl (clock w))) s2"
    and "\<not> accepted self (shd (stl (stl (clock w)))) s3"
  shows "prompt_loop self 3 w =
           (Inr False, w\<lparr>stdin := later, clock := stl (stl (stl (clock w))),
                         stdout := stdout w @ [MsgIncorrect 2, MsgIncorrect 1, MsgTooManyAttempts]\<rparr>)"
proof -
  let ?w1 = "w\<lparr>stdin := Line s2 # Line s3 # later, clock := stl (clock w),
                stdout := stdout w @ [MsgIncorrect 2]\<rparr>"
  let ?w2 = "?w1\<lparr>stdin := Line s3 # later, clock := stl (clock ?w1),
                  stdout := stdout ?w1 @ [MsgIncorrect 1]\<rparr>"
  have "prompt_loop self 3 w = prompt_loop self 2 ?w1"
    using prompt_loop_rejected [of 3 w s1 "Line s2 # Line s3 # later" self] assms(1,2)
    by simp
  also have "\<dots> = prompt_loop self 1 ?w2"
    using prompt_loop_rejected [of 2 ?w1 s2 "Line s3 # later" self] assms(3)
    by simp
  also have "\<dots> = (Inr False, ?w2\<lparr>stdin := later, clock := stl (clock ?w2),
                                    stdout := stdout ?w2 @ [MsgTooManyAttempts]\<rparr>)"
    using prompt_loop_rejected [of 1 ?w2 s3 later self] assms(4)
    by simp
  finally show ?thesis
    by simp
qed

lemma three_lines:
  assumes "3 \<le> length xs"
    and "\<forall>k < 3. \<exists>s. xs ! k = Line s \<and> \<not> accepted self (c !! k) s"
  shows "\<exists>s1 s2 s3 later. xs = Line s1 # Line s2 # Line s3 # later \<and>
           \<not> accepted self (shd c) s1 \<and> \<not> accepted self (shd (stl c)) s2 \<and>
           \<not> accepted self (shd (stl (stl c))) s3"
proof -
  from assms(1) obtain x1 x2 x3 later where xs: "xs = x1 # x2 # x3 # later"
    by (cases xs; cases "tl xs"; cases "tl (tl xs)") auto
  from assms(2) obtain s1 where s1: "xs ! 0 = Line s1" "\<not> accepted self (c !! 0) s1"
    by (metis zero_less_numeral)
  have "(1::nat) < 3"
    by simp
  with assms(2) obtain s2 where s2: "xs ! 1 = Line s2" "\<not> accepted self (c !! 1) s2"
    by blast
  have "(2::nat) < 3"
    by simp
  with assms(2) obtain s3 where s3: "xs ! 2 = Line s3" "\<not> accepted self (c !! 2) s3"
    by blast
  from xs s1 s2 s3 show ?thesis
    by (simp add: numeral_2_eq_2)
qed

text \<open>
  C5. In every run of the unlock dialogue the attempt counter starts at 3 and a failed
  validation takes one attempt away. The dialogue ends by exhaustion (the message "too many
  failed attempts", result False) exactly when the first three inputs are lines that fail
  the validation, each at the time it is typed; then exactly three inputs have been read, the
  remaining attempts announced were 2 and 1, and nothing further is read. No run reads more
  than three inputs, so a successful validation among the first three attempts excludes the
  exhaustion.
\<close>

theorem C5_three_attempts_then_blocked:
  assumes "prompt_for_new_code self w = (r, w')"
  shows "prompt_for_new_code self w = prompt_loop self 3 (w\<lparr>clock := stl (stl (stl (clock w)))\<rparr>) \<and>
         (\<exists>ms. stdout w' = stdout w @ ms \<and>
            length (stdin w') \<le> length (stdin w) \<and> length (stdin w) \<le> length (stdin w') + 3 \<and>
            (MsgTooManyAttempts \<in> set ms \<longleftrightarrow>
               (\<exists>s1 s2 s3 later. stdin w = Line s1 # Line s2 # Line s3 # later \<and>
                  \<not> accepted self (shd (stl (stl (stl (clock w))))) s1 \<and>
                  \<not> accepted self (shd (stl (stl (stl (stl (clock w)))))) s2 \<and>
                  \<not> accepted self (shd (stl (stl (stl (stl (stl (clock w))))))) s3)) \<and>
            (MsgTooManyAttempts \<in> set ms \<longrightarrow>
               r = Inr False \<and> ms = [MsgIncorrect 2, MsgIncorrect 1, MsgTooManyAttempts] \<and>
               stdin w' = drop 3 (stdin w)))"
proof -
  let ?w0 = "w\<lparr>clock := stl (stl (stl (clock w)))\<rparr>"
  let ?three = "\<exists>s1 s2 s3 later. stdin w = Line s1 # Line s2 # Line s3 # later \<and>
                  \<not> accepted self (shd (stl (stl (stl (clock w))))) s1 \<and>
                  \<not> accepted self (shd (stl (stl (stl (stl (clock w)))))) s2 \<and>
                  \<not> accepted self (shd (stl (stl (stl (stl (stl (clock w))))))) s3"
  have start: "prompt_for_new_code self w = prompt_loop self 3 ?w0"
    by (rule prompt_for_new_code_eq)
  with assms have run: "prompt_loop self 3 ?w0 = (r, w')"
    by simp
  show ?thesis
  proof (cases ?three)
    case True
    then obtain s1 s2 s3 later where
      i: "stdin ?w0 = Line s1 # Line s2 # Line s3 # later"
      and a: "\<not> accepted self (shd (clock ?w0)) s1" "\<not> accepted self (shd (stl (clock ?w0))) s2"
        "\<not> accepted self (shd (stl (stl (clock ?w0)))) s3"
      by auto
    from three_rejected [OF i a] run
    have r: "r = Inr False"
      and w': "w' = ?w0\<lparr>stdin := later, clock := stl (stl (stl (clock ?w0))),
                 stdout := stdout ?w0 @ [MsgIncorrect 2, MsgIncorrect 1, MsgTooManyAttempts]\<rparr>"
      by simp_all
    have "stdout w' = stdout w @ [MsgIncorrect 2, MsgIncorrect 1, MsgTooManyAttempts]"
      using w' by simp
    moreover have "stdin w' = drop 3 (stdin w)" and "length (stdin w) = length (stdin w') + 3"
      using w' i by simp_all
    ultimately show ?thesis
      using start r True by auto
  next
    case False
    from prompt_loop_run [OF run] obtain ms where
      out: "stdout w' = stdout w @ ms"
      and le1: "length (stdin w') \<le> length (stdin w)"
      and le2: "length (stdin w) \<le> length (stdin w') + 3"
      and ex: "MsgTooManyAttempts \<in> set ms \<longrightarrow>
                 r = Inr False \<and> length (stdin ?w0) = length (stdin w') + nat 3 \<and>
                 (\<forall>k < nat 3. \<exists>s. stdin ?w0 ! k = Line s \<and> \<not> accepted self (clock ?w0 !! k) s)"
      by auto
    have no: "MsgTooManyAttempts \<notin> set ms"
    proof
      assume "MsgTooManyAttempts \<in> set ms"
      with ex have len: "3 \<le> length (stdin w)"
        and all: "\<forall>k < 3. \<exists>s. stdin w ! k = Line s \<and>
                      \<not> accepted self (stl (stl (stl (clock w))) !! k) s"
        by simp_all
      from three_lines [OF len all] False show False
        by blast
    qed
    with start out le1 le2 False show ?thesis
      by blast
  qed
qed

theorem C5_three_attempts_then_blocked_witness:
  "fst (prompt_for_new_code HiddenAccessCodeManager
          (frozen_world (mk_dt 2025 6 15 10 30 0 250000)
             [Line ''ABC'', Line ''12'', Line [], Line ''ABCD1234''] True)) = Inr False \<and>
   stdin (snd (prompt_for_new_code HiddenAccessCodeManager
          (frozen_world (mk_dt 2025 6 15 10 30 0 250000)
             [Line ''ABC'', Line ''12'', Line [], Line ''ABCD1234''] True))) = [Line ''ABCD1234''] \<and>
   stdout (snd (prompt_for_new_code HiddenAccessCodeManager
          (frozen_world (mk_dt 2025 6 15 10 30 0 250000)
             [Line ''ABC'', Line ''12'', Line [], Line ''ABCD1234''] True))) =
     [MsgIncorrect 2, MsgIncorrect 1, MsgTooManyAttempts]"
proof -
  let ?t = "mk_dt 2025 6 15 10 30 0 250000"
  let ?w = "frozen_world ?t [Line ''ABC'', Line ''12'', Line [], Line ''ABCD1234''] True"
  let ?r = "prompt_for_new_code HiddenAccessCodeManager ?w"
  have run: "?r = (fst ?r, snd ?r)"
    by simp
  have rej: "\<not> accepted HiddenAccessCodeManager ?t ''ABC''"
    "\<not> accepted HiddenAccessCodeManager ?t ''12''"
    "\<not> accepted HiddenAccessCodeManager ?t []"
    by (simp_all add: short_line_rejected)
  from C5_three_attempts_then_blocked [OF run] obtain ms where
    out: "stdout (snd ?r) = stdout ?w @ ms"
    and iff: "MsgTooManyAttempts \<in> set ms \<longleftrightarrow>
               (\<exists>s1 s2 s3 later. stdin ?w = Line s1 # Line s2 # Line s3 # later \<and>
                  \<not> accepted HiddenAccessCodeManager (shd (stl (stl (stl (clock ?w))))) s1 \<and>
                  \<not> accepted HiddenAccessCodeManager (shd (stl (stl (stl (stl (clock ?w)))))) s2 \<and>
                  \<not> accepted HiddenAccessCodeManager (shd (stl (stl (stl (stl (stl (clock ?w))))))) s3)"
    and fin: "MsgTooManyAttempts \<in> set ms \<longrightarrow>
               fst ?r = Inr False \<and> ms = [MsgIncorrect 2, MsgIncorrect 1, MsgTooManyAttempts] \<and>
               stdin (snd ?r) = drop 3 (stdin ?w)"
    by blast
  have "MsgTooManyAttempts \<in> set ms"
    using iff rej by (simp add: frozen_world_def)
  with fin out show ?thesis
    by (simp add: frozen_world_def)
qed

text \<open>
  C6 (as amended). At every attempt number \<open>n \<ge> 1\<close>, a line that passes the validation
  ends the dialogue: the start of the gated service is attempted once, and the dialogue
  reports success exactly when that start succeeds; when the start fails the dialogue
  reports the failed restart and returns False.
\<close>

theorem C6_accepted_code_starts_service:
  assumes "0 < n" and "stdin w = Line s # rest" and "accepted self (shd (clock w)) s"
  shows "fst (prompt_loop self n w) = Inr (shd (start_results w)) \<and>
         start_results (snd (prompt_loop self n w)) = stl (start_results w) \<and>
         stdin (snd (prompt_loop self n w)) = rest \<and>
         stdout (snd (prompt_loop self n w)) =
           stdout w @ [MsgCodeCorrect,
                       if shd (start_results w) then MsgUnlocked else MsgRestartError]"
  by (simp add: prompt_loop_accepted [OF assms])

theorem C6_accepted_code_starts_service_witness:
  "fst (prompt_loop HiddenAccessCodeManager 2
          (frozen_world (mk_dt 2025 6 15 10 30 0 250000)
             [Line (deriveCode_spec (period_of (mk_dt 2025 6 15 10 30 0 250000)) SECRET_SEED 8)]
             True)) = Inr True \<and>
   stdout (snd (prompt_loop HiddenAccessCodeManager 2
          (frozen_world (mk_dt 2025 6 15 10 30 0 250000)
             [Line (deriveCode_spec (period_of (mk_dt 2025 6 15 10 30 0 250000)) SECRET_SEED 8)]
             True))) = [MsgCodeCorrect, MsgUnlocked]"
proof -
  let ?t = "mk_dt 2025 6 15 10 30 0 250000"
  let ?code = "deriveCode_spec (period_of ?t) SECRET_SEED 8"
  let ?w = "frozen_world ?t [Line ?code] True"
  have n: "(0::int) < 2"
    by simp
  have i: "stdin ?w = Line ?code # []"
    by (simp add: frozen_world_def)
  have a: "accepted HiddenAccessCodeManager (shd (clock ?w)) ?code"
    using code_accepted [of HiddenAccessCodeManager ?t]
    by (simp add: HiddenAccessCodeManager_def)
  from C6_accepted_code_starts_service [OF n i a] show ?thesis
    by (simp add: frozen_world_def)
qed

text \<open>
  The claim as stated fails when the server does not start: the correct code is entered at
  the first attempt and the dialogue returns False.
\<close>

theorem C6_accepted_code_counterexample:
  "accepted HiddenAccessCodeManager (mk_dt 2025 6 15 10 30 0 250000)
     (deriveCode_spec (period_of (mk_dt 2025 6 15 10 30 0 250000)) SECRET_SEED 8) \<and>
   fst (prompt_for_new_code HiddenAccessCodeManager
          (frozen_world (mk_dt 2025 6 15 10 30 0 250000)
             [Line (deriveCode_spec (period_of (mk_dt 2025 6 15 10 30 0 250000)) SECRET_SEED 8)]
             False)) = Inr False \<and>
   stdout (snd (prompt_for_new_code HiddenAccessCodeManager
          (frozen_world (mk_dt 2025 6 15 10 30 0 250000)
             [Line (deriveCode_spec (period_of (mk_dt 2025 6 15 10 30 0 250000)) SECRET_SEED 8)]
             False))) = [MsgCodeCorrect, MsgRestartError]"
proof -
  let ?t = "mk_dt 2025 6 15 10 30 0 250000"
  let ?code = "deriveCode_spec (period_of ?t) SECRET_SEED 8"
  let ?w = "frozen_world ?t [Line ?code] False"
  let ?w0 = "?w\<lparr>clock := stl (stl (stl (clock ?w)))\<rparr>"
  have a: "accepted HiddenAccessCodeManager ?t ?code"
    using code_accepted [of HiddenAccessCodeManager ?t]
    by (simp add: HiddenAccessCodeManager_def)
  have n: "(0::int) < 3"
    by simp
  have i: "stdin ?w0 = Line ?code # []"
    by (simp add: frozen_world_def)
  have a0: "accepted HiddenAccessCodeManager (shd (clock ?w0)) ?code"
    using a by simp
  from prompt_loop_accepted [OF n i a0] a show ?thesis
    by (simp add: prompt_for_new_code_eq frozen_world_def)
qed

section \<open>The word functions and the integer functions agree\<close>

lemma uint32_take_bit [simp]: "take_bit 32 (uint (x :: u32)) = uint x"
  by (simp add: take_bit_int_eq_self_iff uint_lt2p [where 'a = 32, simplified])

lemma uint_add32: "uint (x + y :: u32) = add32 (uint x) (uint y)"
  by (simp add: add32_def uint_word_arith_bintrs)

lemma uint_rotr: "uint (rotr n x) = rotr_int n (uint x)"
  by (simp add: rotr_def rotr_int_def unsigned_or_eq unsigned_drop_bit_eq unsigned_push_bit_eq)

lemma uint_Ch: "uint (Ch x y z) = Ch_int (uint x) (uint y) (uint z)"
  by (simp add: Ch_def Ch_int_def unsigned_xor_eq unsigned_and_eq unsigned_not_eq)

lemma uint_Maj: "uint (Maj x y z) = Maj_int (uint x) (uint y) (uint z)"
  by (simp add: Maj_def Maj_int_def unsigned_xor_eq unsigned_and_eq)

lemma uint_bsig0: "uint (bsig0 x) = bsig0_int (uint x)"
  by (simp add: bsig0_def bsig0_int_def unsigned_xor_eq uint_rotr)

lemma uint_bsig1: "uint (bsig1 x) = bsig1_int (uint x)"
  by (simp add: bsig1_def bsig1_int_def unsigned_xor_eq uint_rotr)

lemma uint_ssig0: "uint (ssig0 x) = ssig0_int (uint x)"
  by (simp add: ssig0_def ssig0_int_def unsigned_xor_eq uint_rotr unsigned_drop_bit_eq)

lemma uint_ssig1: "uint (ssig1 x) = ssig1_int (uint x)"
  by (simp add: ssig1_def ssig1_int_def unsigned_xor_eq uint_rotr unsigned_drop_bit_eq)

lemma uint8_take_bit [simp]: "take_bit 32 (uint (x :: byte)) = uint x"
proof -
  have "uint x < 2 ^ 8"
    using uint_lt2p [of x] by simp
  then have "uint x < 2 ^ 32"
    by simp
  then show ?thesis
    by (simp add: take_bit_int_eq_self_iff)
qed

lemma uint_be32: "uint (be32 a b c d) = be32_int (uint a) (uint b) (uint c) (uint d)"
  by (simp add: be32_def be32_int_def unsigned_or_eq unsigned_push_bit_eq unsigned_ucast_eq)

lemma uint_u32_bytes: "map uint (u32_bytes w) = u32_bytes_int (uint w)"
  by (simp add: u32_bytes_def u32_bytes_int_def unsigned_ucast_eq unsigned_drop_bit_eq)

lemma uint_u64_bytes: "map uint (u64_bytes n) = u64_bytes_int n"
  by (simp add: u64_bytes_def u64_bytes_int_def unsigned_ucast_eq unsigned_drop_bit_eq
      unsigned_of_nat take_bit_of_nat)

lemma uint_pad: "map uint (pad m) = pad_int (map uint m)"
  by (simp add: pad_def pad_int_def uint_u64_bytes)

lemma uint_words_of: "map uint (words_of bs) = words_of_int (map uint bs)"
  by (induction bs rule: words_of.induct) (simp_all add: uint_be32)

lemma length_words_of_int_64: "length bs = 64 \<Longrightarrow> length (words_of bs) = 16"
  by (auto simp add: length_Suc_conv eval_nat_numeral)

lemma uint_schedule:
  assumes "w \<noteq> []"
  shows "map uint (schedule n w) = schedule_int n (map uint w)"
  using assms
proof (induction n arbitrary: w)
  case 0
  then show ?case
    by simp
next
  case (Suc n)
  from Suc.prems have l: "0 < length w"
    by simp
  then have i: "length w - 2 < length w" "length w - 7 < length w"
    "length w - 15 < length w" "length w - 16 < length w"
    by simp_all
  have "map uint (w @ [ssig1 (w ! (length w - 2)) + w ! (length w - 7)
                       + ssig0 (w ! (length w - 15)) + w ! (length w - 16)]) =
        map uint w @ [add32 (add32 (add32 (ssig1_int (map uint w ! (length (map uint w) - 2)))
                                          (map uint w ! (length (map uint w) - 7)))
                                   (ssig0_int (map uint w ! (length (map uint w) - 15))))
                            (map uint w ! (length (map uint w) - 16))]"
    using i by (simp add: uint_add32 uint_ssig0 uint_ssig1)
  then show ?case
    using Suc.IH [of "w @ [ssig1 (w ! (length w - 2)) + w ! (length w - 7)
                           + ssig0 (w ! (length w - 15)) + w ! (length w - 16)]"]
    by simp
qed

lemma uint_sha_round:
  "map uint (sha_round s (k, w)) = sha_round_int (map uint s) (uint k, uint w)"
  by (cases "(s, (k, w))" rule: sha_round.cases)
     (simp_all add: Let_def uint_add32 uint_bsig0 uint_bsig1 uint_Ch uint_Maj)

lemma uint_foldl_sha_round:
  "map uint (foldl sha_round h xs) =
     foldl sha_round_int (map uint h) (map (\<lambda>(k, w). (uint k, uint w)) xs)"
proof (induction xs arbitrary: h)
  case Nil
  then show ?case
    by simp
next
  case (Cons x xs)
  obtain k w where x: "x = (k, w)"
    by (cases x)
  show ?case
    using Cons.IH [of "sha_round h (k, w)"] by (simp add: x uint_sha_round)
qed

lemma uint_map2_add: "map uint (map2 (+) (h :: u32 list) s) = map2 add32 (map uint h) (map uint s)"
proof (induction h arbitrary: s)
  case Nil
  then show ?case
    by simp
next
  case (Cons a h)
  then show ?case
    by (cases s) (simp_all add: uint_add32)
qed

lemma uint_compress:
  assumes "length blk = 64"
  shows "map uint (compress h blk) = compress_int (map uint h) (map uint blk)"
proof -
  from assms have "words_of blk \<noteq> []"
    using length_words_of_int_64 [of blk] by auto
  then have s: "map uint (schedule 48 (words_of blk)) = schedule_int 48 (words_of_int (map uint blk))"
    by (simp add: uint_schedule uint_words_of)
  have z: "map (\<lambda>(k, w). (uint k, uint w)) (zip K256 (schedule 48 (words_of blk))) =
           zip (map uint K256) (map uint (schedule 48 (words_of blk)))"
    by (simp add: zip_map_map)
  have "map uint (compress h blk) =
          map2 add32 (map uint h)
            (map uint (foldl sha_round h (zip K256 (schedule 48 (words_of blk)))))"
    unfolding compress_def by (rule uint_map2_add)
  also have "\<dots> = map2 add32 (map uint h)
            (foldl sha_round_int (map uint h)
               (zip (map uint K256) (schedule_int 48 (words_of_int (map uint blk)))))"
    by (simp only: uint_foldl_sha_round z s)
  finally show ?thesis
    by (simp only: compress_int_def)
qed

lemma uint_blocks: "map (map uint) (blocks bs) = blocks_int (map uint bs)"
proof (induction bs rule: blocks.induct)
  case (1 bs)
  show ?case
  proof (cases "length bs < 64")
    case True
    then show ?thesis
      by (simp add: blocks.simps [of bs] blocks_int.simps [of "map uint bs"])
  next
    case False
    with "1.IH" show ?thesis
      by (simp add: blocks.simps [of bs] blocks_int.simps [of "map uint bs"] take_map drop_map)
  qed
qed

lemma blocks_length: "b \<in> set (blocks bs) \<Longrightarrow> length b = 64"
proof (induction bs rule: blocks.induct)
  case (1 bs)
  then show ?case
    by (cases "length bs < 64") (auto simp add: blocks.simps [of bs])
qed

lemma uint_foldl_compress:
  assumes "\<forall>b \<in> set bs. length b = 64"
  shows "map uint (foldl compress h bs) = foldl compress_int (map uint h) (map (map uint) bs)"
  using assms
proof (induction bs arbitrary: h)
  case Nil
  then show ?case
    by simp
next
  case (Cons b bs)
  then show ?case
    by (simp add: uint_compress)
qed

lemma uint_concat_u32_bytes:
  "map uint (concat (map u32_bytes ws)) = concat (map u32_bytes_int (map uint ws))"
  by (induction ws) (simp_all add: uint_u32_bytes)

lemma uint_sha256: "map uint (sha256 m) = sha256_int (map uint m)"
proof -
  have "\<forall>b \<in> set (blocks (pad m)). length b = 64"
    using blocks_length by blast
  then show ?thesis
    by (simp add: sha256_def sha256_int_def uint_concat_u32_bytes uint_foldl_compress
        uint_blocks uint_pad)
qed

lemma uint_map_xor:
  "map uint (map (\<lambda>b. b XOR c) (xs :: byte list)) = map (\<lambda>b. b XOR uint c) (map uint xs)"
  by (simp add: unsigned_xor_eq comp_def)

lemma uint_hmac_sha256:
  "map uint (hmac_sha256 key msg) = hmac_sha256_int (map uint key) (map uint msg)"
proof -
  define k0 where "k0 = (if 64 < length key then sha256 key else key)"
  define k where "k = k0 @ replicate (64 - length k0) 0"
  have k0: "map uint k0 = (if 64 < length (map uint key) then sha256_int (map uint key) else map uint key)"
    by (simp add: k0_def uint_sha256)
  have k: "map uint k = map uint k0 @ replicate (64 - length (map uint k0)) 0"
    by (simp add: k_def)
  have "map uint (hmac_sha256 key msg) =
          sha256_int (map uint (map (\<lambda>b. b XOR 0x5c) k) @
                      sha256_int (map uint (map (\<lambda>b. b XOR 0x36) k) @ map uint msg))"
    by (simp add: hmac_sha256_def Let_def k0_def k_def uint_sha256 del: map_map map_append)
       (simp add: uint_sha256)
  also have "\<dots> = sha256_int (map (\<lambda>b. b XOR 92) (map uint k) @
                      sha256_int (map (\<lambda>b. b XOR 54) (map uint k) @ map uint msg))"
    by (simp only: uint_map_xor) simp
  finally show ?thesis
    by (simp only: hmac_sha256_int_def Let_def k k0)
qed

section \<open>Digests and codes of concrete periods\<close>





lemma digest_03_2029:
  "map uint (hmac_sha256 (encode_utf8 SECRET_SEED) (encode_utf8 ''03-2029'')) =
     [57, 208, 222, 15, 86, 113, 243, 58, 251, 152, 12, 241, 27, 30, 159, 147,
      126, 168, 37, 100, 189, 161, 181, 58, 65, 11, 46, 89, 99, 204, 224, 239]"
  unfolding uint_hmac_sha256 by code_simp

lemma code_from_digest:
  assumes "map uint (hmac_sha256 (encode_utf8 s) (encode_utf8 p)) = d"
  shows "deriveCode_spec p s n = map (\<lambda>i. alphabet ! ((nat (d ! (i mod 32)) + i) mod 36)) [0..<n]"
proof -
  have "unat (hmac_sha256 (encode_utf8 s) (encode_utf8 p) ! (i mod 32)) = nat (d ! (i mod 32))" for i
  proof -
    have "i mod 32 < length (hmac_sha256 (encode_utf8 s) (encode_utf8 p))"
      by (simp add: length_hmac_sha256)
    then have "d ! (i mod 32) = uint (hmac_sha256 (encode_utf8 s) (encode_utf8 p) ! (i mod 32))"
      using assms by (metis nth_map)
    then show ?thesis
      by simp
  qed
  then show ?thesis
    by (simp add: deriveCode_spec_def)
qed





lemma code_03_2029: "deriveCode_spec ''03-2029'' SECRET_SEED 8 = ''V3ISSK73''"
  unfolding code_from_digest [OF digest_03_2029] by code_simp

section \<open>Validation by the callers\<close>

lemma period_of_mk_dt: "period_of (mk_dt y m d h mi s us) = fmt_02d m @ ''-'' @ str_nat y"
  by (simp add: period_of_def mk_dt_def)





lemma period_03_2029: "period_of (mk_dt 2029 3 d h mi sec us) = ''03-2029''"
  unfolding period_of_mk_dt by code_simp


lemma upper_strip_sharp_s:
  "upper (strip (''v3i'' @ [char_of (223 :: nat)] @ ''k73'')) = code_points ''V3ISSK73''"
  by code_simp









lemma secret_seed_manager: "secret_seed HiddenAccessCodeManager = SECRET_SEED"
  by (simp add: HiddenAccessCodeManager_def)






text \<open>
  A line with a sharp s: in March 2029 the code is V3ISSK73, and the line \<open>v3i\<close>, sharp s,
  \<open>k73\<close> is that code once in upper case, so the prompt accepts it at the first attempt.
\<close>

lemma sharp_s_line_unlocks:
  "accepted HiddenAccessCodeManager (mk_dt 2029 3 10 9 0 0 0)
     (''v3i'' @ [char_of (223 :: nat)] @ ''k73'') \<and>
   fst (prompt_for_new_code HiddenAccessCodeManager
          (frozen_world (mk_dt 2029 3 10 9 0 0 0)
             [Line (''v3i'' @ [char_of (223 :: nat)] @ ''k73'')] True)) = Inr True"
proof -
  let ?t = "mk_dt 2029 3 10 9 0 0 0"
  let ?s = "''v3i'' @ [char_of (223 :: nat)] @ ''k73''"
  let ?w = "frozen_world ?t [Line ?s] True"
  let ?w0 = "?w\<lparr>clock := stl (stl (stl (clock ?w)))\<rparr>"
  have a: "accepted HiddenAccessCodeManager ?t ?s"
    unfolding accepted_def secret_seed_manager period_03_2029 code_03_2029
    by (rule upper_strip_sharp_s)
  have n: "(0::int) < 3"
    by simp
  have i: "stdin ?w0 = Line ?s # []"
    by (simp add: frozen_world_def)
  have a0: "accepted HiddenAccessCodeManager (shd (clock ?w0)) ?s"
    using a by simp
  from prompt_loop_accepted [OF n i a0] a show ?thesis
    by (simp add: prompt_for_new_code_eq frozen_world_def)
qed

end
